theory Spec2Isabelle
  imports Main "HOL-Library.Word" "HOL-Library.List_Lexorder"
begin

unbundle bit_operations_syntax

text \<open>
  A model of the class \<^verbatim>\<open>GoogleSheetsSecureAPI\<close> of \<^verbatim>\<open>gs_secure_api_cdn.js\<close>: the
  signature of a parameter object, the configuration of the client, and a request with
  what it reads from the page and the network and what it does to them. A method that
  throws, or an asynchronous method whose promise rejects, returns \<open>Inl\<close> of the
  error; the effects of a call are the list of events it returns besides its result.
\<close>

section \<open>JavaScript strings\<close>

text \<open>
  A JavaScript string is a sequence of UTF-16 code units. The order on strings that
  \<^verbatim>\<open>Array.prototype.sort()\<close> uses without a comparator is the lexicographic order on
  code units, a proper prefix being smaller: this is the order of lists from
  \<open>List_Lexorder\<close> over the unsigned order of \<open>16 word\<close>.
\<close>

type_synonym code_unit = "16 word"
type_synonym js_string = "code_unit list"

definition js :: "string \<Rightarrow> js_string" where
  "js s = map of_char s"

text \<open>
  \<^verbatim>\<open>Number.prototype.toString()\<close> on a non-negative integer below \<open>10^21\<close> (every
  value of \<^verbatim>\<open>Date.now()\<close> and every HTTP status code): the decimal digits.
\<close>

fun Number_toString :: "nat \<Rightarrow> js_string" where
  "Number_toString n =
     (if n < 10 then [of_nat (48 + n)]
      else Number_toString (n div 10) @ [of_nat (48 + n mod 10)])"

declare Number_toString.simps [simp del]

text \<open>\<^verbatim>\<open>Array.prototype.join(sep)\<close> on an array of strings.\<close>

fun join :: "js_string \<Rightarrow> js_string list \<Rightarrow> js_string" where
  "join sep [] = []"
| "join sep [x] = x"
| "join sep (x # y # ys) = x @ sep @ join sep (y # ys)"

section \<open>Parameter objects\<close>

text \<open>
  A parameter object is the list of its own enumerable string-keyed properties in the
  order \<^verbatim>\<open>Object.keys\<close> and the spread \<^verbatim>\<open>{...params}\<close> enumerate them, each value
  taken at its string form (the template literal of \<^verbatim>\<open>createSignature\<close> and
  \<^verbatim>\<open>searchParams.append\<close> both convert the value to a string). A well-formed object
  has no key twice: \<open>distinct (Object_keys obj)\<close>.
\<close>

type_synonym js_object = "(js_string \<times> js_string) list"

definition Object_keys :: "js_object \<Rightarrow> js_string list" where
  "Object_keys obj = map fst obj"

definition obj_get :: "js_object \<Rightarrow> js_string \<Rightarrow> js_string option" where
  "obj_get obj key = map_of obj key"

text \<open>
  Writing a property, \<^verbatim>\<open>obj[key] = v\<close> or a later key of an object literal: an
  existing key keeps its position and takes the new value, a new key goes last. (The keys
  the client writes are \<^verbatim>\<open>token\<close>, \<^verbatim>\<open>timestamp\<close>, \<^verbatim>\<open>referrer\<close>, \<^verbatim>\<open>origin\<close> and
  \<^verbatim>\<open>signature\<close>, none of them an array index, which would be enumerated first.)
\<close>

fun obj_set :: "js_object \<Rightarrow> js_string \<Rightarrow> js_string \<Rightarrow> js_object" where
  "obj_set [] key v = [(key, v)]"
| "obj_set ((k, w) # obj) key v =
     (if k = key then (k, v) # obj else (k, w) # obj_set obj key v)"

text \<open>The template literal \<^verbatim>\<open>`${x}`\<close> of a property read: a missing property reads
  \<^verbatim>\<open>undefined\<close>.\<close>

definition template :: "js_string option \<Rightarrow> js_string" where
  "template x = (case x of None \<Rightarrow> js ''undefined'' | Some v \<Rightarrow> v)"

section \<open>The signature\<close>

text \<open>
  CryptoJS is a dependency loaded by the page, not part of the repository. The digest
  \<^verbatim>\<open>CryptoJS.HmacSHA256(message, key)\<close> is a parameter \<open>H\<close> of the model, giving the
  bytes of the digest.
\<close>

type_synonym hmac = "js_string \<Rightarrow> js_string \<Rightarrow> 8 word list"

text \<open>
  Modelled from the spec: \<^verbatim>\<open>toString()\<close> of the CryptoJS digest, which is not under
  src/. The spec gives the result as the lowercase hexadecimal digest: two digits for
  each byte, the high nibble first, the digits above 9 being the letters \<^verbatim>\<open>a\<close> to
  \<^verbatim>\<open>f\<close>.
\<close>

definition hex_digit :: "8 word \<Rightarrow> code_unit" where
  "hex_digit d = (if d < 10 then 48 + ucast d else 87 + ucast d)"

definition Hex_stringify :: "8 word list \<Rightarrow> js_string" where
  "Hex_stringify bytes = concat (map (\<lambda>b. [hex_digit (drop_bit 4 b), hex_digit (b AND 15)]) bytes)"

definition computeHMAC :: "hmac \<Rightarrow> js_string \<Rightarrow> js_string \<Rightarrow> js_string" where
  "computeHMAC H params secret = Hex_stringify (H params secret)"

definition sortedKeys :: "js_object \<Rightarrow> js_string list" where
  "sortedKeys params = sort (Object_keys params)"

definition signatureString :: "js_object \<Rightarrow> js_string" where
  "signatureString params =
     join (js ''&'') (map (\<lambda>key. key @ js ''='' @ template (obj_get params key)) (sortedKeys params))"

definition createSignature :: "hmac \<Rightarrow> js_object \<Rightarrow> js_string \<Rightarrow> js_string" where
  "createSignature H params secret = computeHMAC H (signatureString params) secret"

subsection \<open>The words of the specification\<close>

text \<open>
  The code points of a string: a high surrogate followed by a low surrogate is one
  supplementary code point, every other code unit is its own code point.
\<close>

definition is_high :: "code_unit \<Rightarrow> bool" where
  "is_high u = (0xD800 \<le> u \<and> u \<le> 0xDBFF)"

definition is_low :: "code_unit \<Rightarrow> bool" where
  "is_low u = (0xDC00 \<le> u \<and> u \<le> 0xDFFF)"

fun code_points :: "js_string \<Rightarrow> nat list" where
  "code_points [] = []"
| "code_points [u] = [unat u]"
| "code_points (u # v # us) =
     (if is_high u \<and> is_low v
      then (0x10000 + (unat u - 0xD800) * 0x400 + (unat v - 0xDC00)) # code_points us
      else unat u # code_points (v # us))"

definition has_surrogate :: "js_string \<Rightarrow> bool" where
  "has_surrogate s = (\<exists>u \<in> set s. is_high u \<or> is_low u)"

text \<open>A string of lowercase hexadecimal digits.\<close>

definition lowercase_hex :: "js_string \<Rightarrow> bool" where
  "lowercase_hex s = (\<forall>c \<in> set s. c \<in> set (js ''0123456789abcdef''))"

section \<open>Errors and log entries\<close>

text \<open>A thrown value: the \<^verbatim>\<open>name\<close> and \<^verbatim>\<open>message\<close> of the error object.\<close>

datatype js_error = JsError (err_name: js_string) (err_message: js_string)

definition Error :: "js_string \<Rightarrow> js_error" where
  "Error msg = JsError (js ''Error'') msg"

text \<open>The errors \<^verbatim>\<open>request\<close> creates, under the names the specification gives them.\<close>

definition ConfigurationIncomplete :: js_error where
  "ConfigurationIncomplete =
     Error (js ''API configuration incomplete. Please set scriptUrl, apiToken, and hmacSecret.'')"

definition HttpError :: "nat \<Rightarrow> js_error" where
  "HttpError st = Error (js ''HTTP error! Status: '' @ Number_toString st)"

definition RequestFailed :: "js_string \<Rightarrow> js_error" where
  "RequestFailed msg = Error msg"

definition RequestTimeout :: js_error where
  "RequestTimeout = Error (js ''Request timeout'')"

text \<open>
  The error a fetch rejects with once its signal is aborted: a \<^verbatim>\<open>DOMException\<close> named
  \<^verbatim>\<open>AbortError\<close>, the message in the browser's wording.
\<close>

definition AbortError :: "js_string \<Rightarrow> js_error" where
  "AbortError wording = JsError (js ''AbortError'') wording"

text \<open>
  The decoded JSON body of a response, at the shape the endpoint answers with: an object
  with the optional string fields \<^verbatim>\<open>status\<close> and \<^verbatim>\<open>message\<close>, and further fields
  \<open>payload\<close> the client never reads.
\<close>

record 'p response_body =
  status :: "js_string option"
  message :: "js_string option"
  payload :: 'p

datatype level = Warn | Err | Log

datatype 'p logged =
    Text js_string
  | Thrown js_error
  | Params js_object
  | Url js_string js_object
  | Data "'p response_body"

text \<open>
  What a call does to the world, in order: a line on the console, arming the timer
  (with its delay), the GET request (the endpoint URL and the query parameters appended
  to it, in order), aborting the request, clearing the timer.
\<close>

datatype 'p event =
    Console level "'p logged list"
  | SetTimeout int
  | Fetch js_string js_object
  | Abort
  | ClearTimeout

fun is_Fetch :: "'p event \<Rightarrow> bool" where
  "is_Fetch (Fetch url query) = True"
| "is_Fetch ev = False"

section \<open>The client\<close>

record config =
  scriptUrl :: js_string
  apiToken :: js_string
  hmacSecret :: js_string
  debug :: bool
  timeout :: int

text \<open>
  The argument of the constructor and of \<^verbatim>\<open>configure\<close>: every key is absent or holds
  a value of the field's type.
\<close>

record options =
  opt_scriptUrl :: "js_string option"
  opt_apiToken :: "js_string option"
  opt_hmacSecret :: "js_string option"
  opt_debug :: "bool option"
  opt_timeout :: "int option"

text \<open>
  \<^verbatim>\<open>validateConfig\<close>: a warning for each missing field, then the check that CryptoJS
  is loaded (\<open>cryptojs\<close> is \<^verbatim>\<open>typeof CryptoJS !== 'undefined'\<close>).
\<close>

definition validateConfig :: "bool \<Rightarrow> config \<Rightarrow> js_error option \<times> 'p event list" where
  "validateConfig cryptojs cfg =
     (let warnings =
        (if scriptUrl cfg = [] then
           [Console Warn [Text (js ''GoogleSheetsSecureAPI: scriptUrl not configured'')]] else []) @
        (if apiToken cfg = [] then
           [Console Warn [Text (js ''GoogleSheetsSecureAPI: apiToken not configured'')]] else []) @
        (if hmacSecret cfg = [] then
           [Console Warn [Text (js ''GoogleSheetsSecureAPI: hmacSecret not configured'')]] else [])
      in if \<not> cryptojs then
           (Some (Error (js ''CryptoJS is required. Please include: https://cdnjs.cloudflare.com/ajax/libs/crypto-js/4.1.1/crypto-js.min.js'')),
            warnings)
         else (None, warnings))"

text \<open>The defaults of the constructor: \<^verbatim>\<open>x || d\<close> is \<open>d\<close> when \<open>x\<close> is absent or falsy.\<close>

definition initial_config :: "options \<Rightarrow> config" where
  "initial_config opts =
     \<lparr> scriptUrl = (case opt_scriptUrl opts of None \<Rightarrow> [] | Some s \<Rightarrow> if s = [] then [] else s),
       apiToken = (case opt_apiToken opts of None \<Rightarrow> [] | Some s \<Rightarrow> if s = [] then [] else s),
       hmacSecret = (case opt_hmacSecret opts of None \<Rightarrow> [] | Some s \<Rightarrow> if s = [] then [] else s),
       debug = (case opt_debug opts of None \<Rightarrow> False | Some b \<Rightarrow> if b then b else False),
       timeout = (case opt_timeout opts of None \<Rightarrow> 30000 | Some t \<Rightarrow> if t = 0 then 30000 else t) \<rparr>"

definition constructor :: "bool \<Rightarrow> options \<Rightarrow> (js_error + config) \<times> 'p event list" where
  "constructor cryptojs opts =
     (let cfg = initial_config opts
      in case validateConfig cryptojs cfg of
           (Some e, evs) \<Rightarrow> (Inl e, evs)
         | (None, evs) \<Rightarrow> (Inr cfg, evs))"

text \<open>The shallow merge \<^verbatim>\<open>{ ...this.config, ...config }\<close>.\<close>

definition merge :: "config \<Rightarrow> options \<Rightarrow> config" where
  "merge cfg opts =
     \<lparr> scriptUrl = (case opt_scriptUrl opts of None \<Rightarrow> scriptUrl cfg | Some s \<Rightarrow> s),
       apiToken = (case opt_apiToken opts of None \<Rightarrow> apiToken cfg | Some s \<Rightarrow> s),
       hmacSecret = (case opt_hmacSecret opts of None \<Rightarrow> hmacSecret cfg | Some s \<Rightarrow> s),
       debug = (case opt_debug opts of None \<Rightarrow> debug cfg | Some b \<Rightarrow> b),
       timeout = (case opt_timeout opts of None \<Rightarrow> timeout cfg | Some t \<Rightarrow> t) \<rparr>"

text \<open>
  \<^verbatim>\<open>configure\<close> assigns the merged configuration before it validates: the new
  configuration is the client's also when the validation throws.
\<close>

definition configure :: "bool \<Rightarrow> config \<Rightarrow> options \<Rightarrow> (js_error option \<times> config) \<times> 'p event list" where
  "configure cryptojs cfg opts =
     (let cfg' = merge cfg opts
      in case validateConfig cryptojs cfg' of (thrown, evs) \<Rightarrow> ((thrown, cfg'), evs))"

definition enableDebug :: "config \<Rightarrow> config" where
  "enableDebug cfg = cfg\<lparr>debug := True\<rparr>"

definition disableDebug :: "config \<Rightarrow> config" where
  "disableDebug cfg = cfg\<lparr>debug := False\<rparr>"

section \<open>Requests\<close>

text \<open>
  What a call reads from the page and the network: \<^verbatim>\<open>Date.now()\<close>,
  \<^verbatim>\<open>window.location.origin\<close>, whether \<^verbatim>\<open>new URL(scriptUrl)\<close> throws (and what), and
  how the race between the fetch and the timer ends for a given GET request:
  the response arrives first (its status code, and what \<^verbatim>\<open>response.json()\<close> gives: an
  error or the decoded body), the fetch rejects first (a network fault), or the timer
  fires first, its callback aborting the request.
\<close>

datatype 'p fetch_outcome =
    Responds nat "js_error + 'p response_body"
  | Rejects js_error
  | TimerFirst js_string

record 'p env =
  now :: nat
  page_origin :: js_string
  URL_error :: "js_string \<Rightarrow> js_error option"
  network :: "js_string \<Rightarrow> js_object \<Rightarrow> 'p fetch_outcome"

text \<open>\<^verbatim>\<open>response.ok\<close>: the status code is in the range 200 to 299.\<close>

definition response_ok :: "nat \<Rightarrow> bool" where
  "response_ok st = (200 \<le> st \<and> st \<le> 299)"

text \<open>The spread \<^verbatim>\<open>{ ...params }\<close>: the properties of \<open>params\<close> written in turn into a
  new object.\<close>

definition spread :: "js_object \<Rightarrow> js_object" where
  "spread params = fold (\<lambda>(key, v) obj. obj_set obj key v) params []"

text \<open>The object literal of \<^verbatim>\<open>request\<close>: the parameters with the security fields.\<close>

definition secure_params :: "config \<Rightarrow> 'p env \<Rightarrow> js_object \<Rightarrow> js_object" where
  "secure_params cfg e params =
     obj_set (obj_set (obj_set (obj_set (spread params)
       (js ''token'') (apiToken cfg))
       (js ''timestamp'') (Number_toString (now e)))
       (js ''referrer'') (page_origin e))
       (js ''origin'') (page_origin e)"

text \<open>\<^verbatim>\<open>requestParams\<close> after the assignment of \<^verbatim>\<open>requestParams.signature\<close>.\<close>

definition signed_params :: "hmac \<Rightarrow> config \<Rightarrow> 'p env \<Rightarrow> js_object \<Rightarrow> js_object" where
  "signed_params H cfg e params =
     (let requestParams = secure_params cfg e params
      in obj_set requestParams (js ''signature'')
           (createSignature H requestParams (hmacSecret cfg)))"

text \<open>A line \<^verbatim>\<open>console.log\<close> prints in debug mode only.\<close>

definition debug_log :: "config \<Rightarrow> 'p logged list \<Rightarrow> 'p event list" where
  "debug_log cfg args = (if debug cfg then [Console Log args] else [])"

text \<open>The body of the \<^verbatim>\<open>try\<close> block: what it returns or throws, and what it did.\<close>

definition request_try ::
  "hmac \<Rightarrow> config \<Rightarrow> 'p env \<Rightarrow> js_object \<Rightarrow> (js_error + 'p response_body) \<times> 'p event list" where
  "request_try H cfg e params =
     (let requestParams = signed_params H cfg e params
      in case URL_error e (scriptUrl cfg) of
           Some thrown \<Rightarrow> (Inl thrown, [])
         | None \<Rightarrow>
            (let evs =
               debug_log cfg [Text (js ''GoogleSheetsSecureAPI: Making request to:''),
                              Url (scriptUrl cfg) requestParams] @
               debug_log cfg [Text (js ''GoogleSheetsSecureAPI: Request params:''), Params params] @
               [SetTimeout (timeout cfg), Fetch (scriptUrl cfg) requestParams]
             in case network e (scriptUrl cfg) requestParams of
                  TimerFirst wording \<Rightarrow> (Inl (AbortError wording), evs @ [Abort])
                | Rejects fault \<Rightarrow> (Inl fault, evs)
                | Responds st body \<Rightarrow>
                    if \<not> response_ok st then (Inl (HttpError st), evs @ [ClearTimeout])
                    else (case body of
                            Inl thrown \<Rightarrow> (Inl thrown, evs @ [ClearTimeout])
                          | Inr data \<Rightarrow>
                              if status data = Some (js ''success'') then
                                (Inr data,
                                 evs @ [ClearTimeout] @
                                 debug_log cfg [Text (js ''GoogleSheetsSecureAPI: Request successful:''),
                                                Data data])
                              else
                                (Inl (RequestFailed
                                   (case message data of
                                      None \<Rightarrow> js ''Request failed''
                                    | Some m \<Rightarrow> if m = [] then js ''Request failed'' else m)),
                                 evs @ [ClearTimeout]))))"

definition request ::
  "hmac \<Rightarrow> config \<Rightarrow> 'p env \<Rightarrow> js_object \<Rightarrow> (js_error + 'p response_body) \<times> 'p event list" where
  "request H cfg e params =
     (if scriptUrl cfg = [] \<or> apiToken cfg = [] \<or> hmacSecret cfg = [] then
        (Inl ConfigurationIncomplete,
         [Console Err [Text (js ''GoogleSheetsSecureAPI:''), Text (err_message ConfigurationIncomplete)]])
      else
        (case request_try H cfg e params of
           (Inr data, evs) \<Rightarrow> (Inr data, evs)
         | (Inl error, evs) \<Rightarrow>
             if err_name error = js ''AbortError'' then
               (Inl RequestTimeout,
                evs @ [Console Err [Text (js ''GoogleSheetsSecureAPI: Request timeout'')]])
             else
               (Inl error,
                evs @ [Console Err [Text (js ''GoogleSheetsSecureAPI: Request error:''), Thrown error]])))"

text \<open>
  \<^verbatim>\<open>requestSequential\<close>: the loop over the array, \<open>envs i\<close> being what the \<open>i\<close>-th
  request of the loop reads from the page and the network, \<open>results\<close> the array built so
  far. A request that throws ends the loop, and the call, with that error.
\<close>

fun requestSequential_loop ::
  "hmac \<Rightarrow> config \<Rightarrow> (nat \<Rightarrow> 'p env) \<Rightarrow> nat \<Rightarrow> js_object list \<Rightarrow> 'p response_body list \<Rightarrow>
     (js_error + 'p response_body list) \<times> 'p event list" where
  "requestSequential_loop H cfg envs i [] results = (Inr results, [])"
| "requestSequential_loop H cfg envs i (params # rest) results =
     (case request H cfg (envs i) params of
        (Inl error, evs) \<Rightarrow> (Inl error, evs)
      | (Inr result, evs) \<Rightarrow>
          (case requestSequential_loop H cfg envs (Suc i) rest (results @ [result]) of
             (r, evs') \<Rightarrow> (r, evs @ evs')))"

definition requestSequential ::
  "hmac \<Rightarrow> config \<Rightarrow> (nat \<Rightarrow> 'p env) \<Rightarrow> js_object list \<Rightarrow>
     (js_error + 'p response_body list) \<times> 'p event list" where
  "requestSequential H cfg envs requestsArray = requestSequential_loop H cfg envs 0 requestsArray []"

section \<open>Example inputs\<close>

text \<open>A stand-in for the digest, for evaluating the client on concrete inputs only.\<close>

definition H0 :: hmac where
  "H0 msg key = [of_nat (length msg), of_nat (length key), 0xC3]"

definition P1 :: js_object where
  "P1 = [(js ''sheet'', js ''Sheet1''), (js ''action'', js ''getData'')]"

definition Q1 :: js_object where
  "Q1 = [(js ''action'', js ''getData''), (js ''sheet'', js ''Sheet1'')]"

text \<open>Two objects with one canonical string: a value holding \<^verbatim>\<open>&\<close> and \<^verbatim>\<open>=\<close>.\<close>

definition P8 :: js_object where
  "P8 = [(js ''a'', js ''1&b=2'')]"

definition Q8 :: js_object where
  "Q8 = [(js ''a'', js ''1''), (js ''b'', js ''2'')]"

text \<open>Two keys: U+FF5E, one code unit, and U+1F600, the surrogate pair D83D DE00.\<close>

definition P6 :: js_object where
  "P6 = [([0xFF5E], js ''1''), ([0xD83D, 0xDE00], js ''2'')]"

text \<open>The client of the specification's scenario, and a page and network around it.\<close>

definition cfg0 :: config where
  "cfg0 = \<lparr> scriptUrl = js ''https://example.test/api'', apiToken = js ''T1'',
            hmacSecret = js ''S1'', debug = False, timeout = 30000 \<rparr>"

definition params0 :: js_object where
  "params0 = [(js ''action'', js ''getData'')]"

definition env_of :: "(nat \<Rightarrow> nat list fetch_outcome) \<Rightarrow> nat \<Rightarrow> nat list env" where
  "env_of outcomes i =
     \<lparr> now = 1700000000000 + i, page_origin = js ''https://shop.example'',
       URL_error = (\<lambda>url. None), network = (\<lambda>url query. outcomes i) \<rparr>"

definition body_success :: "nat list response_body" where
  "body_success = \<lparr> status = Some (js ''success''), message = None, payload = [1, 2, 3] \<rparr>"

definition body_error :: "nat list response_body" where
  "body_error = \<lparr> status = Some (js ''error''), message = Some (js ''bad token''), payload = [] \<rparr>"

definition body_empty_message :: "nat list response_body" where
  "body_empty_message = \<lparr> status = Some (js ''error''), message = Some [], payload = [] \<rparr>"

text \<open>Parameters in which the caller gives a \<^verbatim>\<open>token\<close> of their own.\<close>

definition params_forged :: js_object where
  "params_forged = [(js ''token'', js ''forged''), (js ''action'', js ''getData'')]"

definition env0 :: "nat list env" where
  "env0 = env_of (\<lambda>i. Responds 200 (Inr body_success)) 0"

text \<open>A network that answers the second request of a sequence with an error body.\<close>

definition second_fails :: "nat \<Rightarrow> nat list fetch_outcome" where
  "second_fails i = (if i = 1 then Responds 200 (Inr body_error) else Responds 200 (Inr body_success))"

definition all_succeed :: "nat \<Rightarrow> nat list fetch_outcome" where
  "all_succeed i = Responds 200 (Inr body_success)"

text \<open>The options of the scenario, and the options that give nothing.\<close>

definition no_options :: options where
  "no_options = \<lparr> opt_scriptUrl = None, opt_apiToken = None, opt_hmacSecret = None,
                  opt_debug = None, opt_timeout = None \<rparr>"

definition options0 :: options where
  "options0 = \<lparr> opt_scriptUrl = Some (js ''https://example.test/api''), opt_apiToken = Some (js ''T1''),
                opt_hmacSecret = Some (js ''S1''), opt_debug = None, opt_timeout = None \<rparr>"

text \<open>
  Parameters in which the caller gives a \<^verbatim>\<open>signature\<close> of their own, and a stand-in for
  the digest that keeps every code unit of the message and of the key (its low byte).
\<close>

definition params_signed :: js_object where
  "params_signed = [(js ''signature'', js ''X''), (js ''action'', js ''getData'')]"

definition H1 :: hmac where
  "H1 msg key = map ucast msg @ map ucast key"

section \<open>Properties of the signature\<close>

lemma sortedKeys_cong:
  assumes "distinct (Object_keys P)" "distinct (Object_keys Q)" "set P = set Q"
  shows "sortedKeys P = sortedKeys Q"
proof -
  have "set (Object_keys P) = set (Object_keys Q)"
    using assms(3) by (simp add: Object_keys_def)
  then show ?thesis
    unfolding sortedKeys_def using assms(1,2)
    by (intro sorted_distinct_set_unique) simp_all
qed

lemma obj_get_cong:
  assumes "distinct (Object_keys P)" "distinct (Object_keys Q)" "set P = set Q"
  shows "obj_get P = obj_get Q"
  using assms map_of_inject_set [of P Q]
  by (auto simp: obj_get_def Object_keys_def fun_eq_iff)

lemma signatureString_cong:
  assumes "distinct (Object_keys P)" "distinct (Object_keys Q)" "set P = set Q"
  shows "signatureString P = signatureString Q"
  by (simp add: signatureString_def sortedKeys_cong [OF assms] obj_get_cong [OF assms])

text \<open>
  C1. Two parameter objects with the same key-value pairs, whatever the order their keys
  were inserted in, have the same signature under every secret (and every digest
  function): \<^verbatim>\<open>createSignature\<close> is a function of the set of pairs.
\<close>

theorem createSignature_order_independent:
  assumes "distinct (Object_keys P)" "distinct (Object_keys Q)" "set P = set Q"
  shows "createSignature H P S = createSignature H Q S"
  by (simp add: createSignature_def signatureString_cong [OF assms])

theorem createSignature_order_independent_witness:
  "distinct (Object_keys P1) \<and> distinct (Object_keys Q1) \<and> set P1 = set Q1 \<and> P1 \<noteq> Q1 \<and>
   createSignature H0 P1 (js ''S1'') = createSignature H0 Q1 (js ''S1'')"
proof -
  have d1: "distinct (Object_keys P1)" by (simp add: P1_def Object_keys_def js_def)
  have d2: "distinct (Object_keys Q1)" by (simp add: Q1_def Object_keys_def js_def)
  have s: "set P1 = set Q1" by (auto simp: P1_def Q1_def)
  have n: "P1 \<noteq> Q1" by (simp add: P1_def Q1_def js_def)
  from d1 d2 s n createSignature_order_independent [OF d1 d2 s, of H0 "js ''S1''"]
  show ?thesis by simp
qed

text \<open>
  C8. The canonical string does not determine the parameters: the object with the one
  pair \<^verbatim>\<open>a\<close>, \<^verbatim>\<open>1&b=2\<close> and the object with the two pairs \<^verbatim>\<open>a\<close>, \<^verbatim>\<open>1\<close> and
  \<^verbatim>\<open>b\<close>, \<^verbatim>\<open>2\<close> are different mappings with the same canonical string, hence the same
  signature under every secret.
\<close>

theorem canonicalization_not_injective:
  "\<exists>P Q. distinct (Object_keys P) \<and> distinct (Object_keys Q) \<and> obj_get P \<noteq> obj_get Q \<and>
     (\<exists>key v. obj_get P key = Some v \<and> (of_char CHR ''&'' \<in> set v \<or> of_char CHR ''='' \<in> set v)) \<and>
     signatureString P = signatureString Q \<and>
     (\<forall>H S. createSignature H P S = createSignature H Q S)"
proof -
  have 1: "distinct (Object_keys P8)" "distinct (Object_keys Q8)"
    by (simp_all add: P8_def Q8_def Object_keys_def js_def)
  have "obj_get P8 (js ''b'') \<noteq> obj_get Q8 (js ''b'')"
    by (simp add: P8_def Q8_def obj_get_def js_def)
  then have 2: "obj_get P8 \<noteq> obj_get Q8" by metis
  have "obj_get P8 (js ''a'') = Some (js ''1&b=2'') \<and> of_char CHR ''&'' \<in> set (js ''1&b=2'')"
    by (simp add: P8_def obj_get_def js_def)
  then have 3: "\<exists>key v. obj_get P8 key = Some v \<and>
      (of_char CHR ''&'' \<in> set v \<or> of_char CHR ''='' \<in> set v)"
    by blast
  have 4: "signatureString P8 = signatureString Q8"
    by (simp add: signatureString_def sortedKeys_def Object_keys_def obj_get_def template_def
        P8_def Q8_def js_def)
  then have 5: "\<forall>H S. createSignature H P8 S = createSignature H Q8 S"
    by (simp add: createSignature_def)
  from 1 2 3 4 5 show ?thesis by blast
qed

subsection \<open>The digest string\<close>

lemma nibble_cases:
  fixes d :: "8 word"
  assumes "d < 16"
  shows "d \<in> set (map of_nat [0..<16])"
proof -
  have "unat d < 16" using assms by (simp add: word_less_nat_alt)
  then have "unat d \<in> set [0..<16]" by simp
  then have "of_nat (unat d) \<in> (of_nat ` set [0..<16] :: 8 word set)" by (rule imageI)
  then show ?thesis by simp
qed

lemma hex_digit_lowercase: "d < 16 \<Longrightarrow> hex_digit d \<in> set (js ''0123456789abcdef'')"
  by (drule nibble_cases) (auto simp: upt_rec hex_digit_def js_def)

lemma high_nibble: "drop_bit 4 (b :: 8 word) < 16"
proof -
  have "unat b < 256" using unsigned_less [of b, where ?'a = nat] by simp
  then have "unat b div 16 < 16" by simp
  then show ?thesis by (simp add: word_less_nat_alt drop_bit_eq_div unat_div)
qed

lemma low_nibble: "(b :: 8 word) AND 15 < 16"
proof -
  have "b AND 15 \<le> 15" by (rule word_and_le1)
  then show ?thesis by (simp add: word_le_nat_alt word_less_nat_alt)
qed

lemma lowercase_hex_Hex_stringify: "lowercase_hex (Hex_stringify bytes)"
  unfolding lowercase_hex_def Hex_stringify_def
  using hex_digit_lowercase [OF high_nibble] hex_digit_lowercase [OF low_nibble] by auto

lemma length_Hex_stringify: "length (Hex_stringify bytes) = 2 * length bytes"
  by (induction bytes) (simp_all add: Hex_stringify_def)

subsection \<open>Code units and code points\<close>

lemma unat_lexord_mono:
  fixes xs ys :: js_string
  shows "xs \<le> ys \<Longrightarrow> map unat xs \<le> map unat ys"
proof (induction xs arbitrary: ys)
  case Nil
  then show ?case by simp
next
  case (Cons x xs)
  then show ?case
    by (cases ys) (auto simp: word_less_nat_alt)
qed

lemma code_points_no_surrogate: "\<not> has_surrogate s \<Longrightarrow> code_points s = map unat s"
  by (induction s rule: code_points.induct) (auto simp: has_surrogate_def)

lemma sorted_map_mono: "sorted xs \<Longrightarrow> (\<And>x y. x \<le> y \<Longrightarrow> f x \<le> f y) \<Longrightarrow> sorted (map f xs)"
  by (induction xs) auto

lemma sorted_code_points:
  assumes "\<forall>key \<in> set ks. \<not> has_surrogate key" "sorted ks"
  shows "sorted (map code_points ks)"
proof -
  have eq: "map code_points ks = map (map unat) ks"
    using assms(1) by (simp add: code_points_no_surrogate)
  have "sorted (map (map unat) ks)"
    using assms(2) by (rule sorted_map_mono) (rule unat_lexord_mono)
  then show ?thesis unfolding eq .
qed

lemma template_obj_get:
  "key \<in> set (Object_keys P) \<Longrightarrow> template (obj_get P key) = the (obj_get P key)"
  by (cases "map_of P key") (auto simp: template_def obj_get_def Object_keys_def map_of_eq_None_iff)

text \<open>
  C6, as stated, at the keys U+FF5E and U+1F600: the sort puts the surrogate pair
  D83D DE00 of U+1F600 first, its code units being smaller than FF5E, while the code
  point 1F600 is larger than FF5E. The sorted keys are not in code-point order.
\<close>

theorem createSignature_code_point_order_counterexample:
  "sortedKeys P6 = [[0xD83D, 0xDE00], [0xFF5E]] \<and>
   map code_points (sortedKeys P6) = [[0x1F600], [0xFF5E]] \<and>
   \<not> sorted (map code_points (sortedKeys P6)) \<and>
   signatureString P6 = [0xD83D, 0xDE00] @ js ''=2&'' @ [0xFF5E] @ js ''=1''"
  by (simp add: sortedKeys_def signatureString_def Object_keys_def obj_get_def template_def
      P6_def is_high_def is_low_def js_def)

text \<open>
  C6, amended. \<^verbatim>\<open>createSignature\<close> takes all keys of the parameters, sorted in the order
  of their UTF-16 code units, builds the canonical string \<^verbatim>\<open>k1=v1&k2=v2&...\<close> by plain
  concatenation of the keys and values as they are, and returns the digest of that string
  keyed by the secret, as lowercase hexadecimal digits, two for each byte of the digest.
  When no key holds a surrogate code unit, the sorted keys are in code-point order as well.
\<close>

theorem createSignature_canonical:
  assumes "distinct (Object_keys P)"
  shows "sorted (sortedKeys P) \<and> distinct (sortedKeys P) \<and>
     set (sortedKeys P) = set (Object_keys P) \<and>
     signatureString P =
       join (js ''&'') (map (\<lambda>key. key @ js ''='' @ the (obj_get P key)) (sortedKeys P)) \<and>
     createSignature H P S = Hex_stringify (H (signatureString P) S) \<and>
     lowercase_hex (createSignature H P S) \<and>
     length (createSignature H P S) = 2 * length (H (signatureString P) S) \<and>
     ((\<forall>key \<in> set (Object_keys P). \<not> has_surrogate key) \<longrightarrow>
        sorted (map code_points (sortedKeys P)))"
proof -
  have 1: "sorted (sortedKeys P)" "distinct (sortedKeys P)"
    "set (sortedKeys P) = set (Object_keys P)"
    using assms by (simp_all add: sortedKeys_def)
  have "map (\<lambda>key. key @ js ''='' @ template (obj_get P key)) (sortedKeys P) =
        map (\<lambda>key. key @ js ''='' @ the (obj_get P key)) (sortedKeys P)"
    by (rule map_cong) (simp_all add: 1(3) template_obj_get)
  then have 2: "signatureString P =
      join (js ''&'') (map (\<lambda>key. key @ js ''='' @ the (obj_get P key)) (sortedKeys P))"
    by (simp only: signatureString_def)
  have 3: "createSignature H P S = Hex_stringify (H (signatureString P) S)"
    by (simp add: createSignature_def computeHMAC_def)
  have 4: "lowercase_hex (createSignature H P S)"
    unfolding 3 by (rule lowercase_hex_Hex_stringify)
  have 5: "length (createSignature H P S) = 2 * length (H (signatureString P) S)"
    unfolding 3 by (rule length_Hex_stringify)
  have 6: "(\<forall>key \<in> set (Object_keys P). \<not> has_surrogate key) \<longrightarrow>
      sorted (map code_points (sortedKeys P))"
    using sorted_code_points [of "sortedKeys P"] 1(1,3) by simp
  from 1 2 3 4 5 6 show ?thesis by blast
qed

theorem createSignature_canonical_witness:
  "distinct (Object_keys P1) \<and>
   sortedKeys P1 = [js ''action'', js ''sheet''] \<and>
   signatureString P1 = js ''action=getData&sheet=Sheet1'' \<and>
   createSignature H0 P1 (js ''S1'') = Hex_stringify (H0 (signatureString P1) (js ''S1'')) \<and>
   createSignature H0 P1 (js ''S1'') = js ''1b02c3'' \<and>
   length (createSignature H0 P1 (js ''S1'')) = 6 \<and>
   sorted (map code_points (sortedKeys P1))"
proof -
  have d: "distinct (Object_keys P1)" by (simp add: P1_def Object_keys_def js_def)
  have n: "\<forall>key \<in> set (Object_keys P1). \<not> has_surrogate key"
    by (simp add: P1_def Object_keys_def has_surrogate_def is_high_def is_low_def js_def)
  have k: "sortedKeys P1 = [js ''action'', js ''sheet'']"
    by (simp add: sortedKeys_def P1_def Object_keys_def js_def)
  have c: "signatureString P1 = js ''action=getData&sheet=Sheet1''"
    by (simp add: signatureString_def sortedKeys_def Object_keys_def obj_get_def template_def
        P1_def js_def)
  have h: "createSignature H0 P1 (js ''S1'') = js ''1b02c3''"
    unfolding createSignature_def computeHMAC_def c
    by (simp add: H0_def Hex_stringify_def hex_digit_def js_def)
  note t = createSignature_canonical [OF d, of H0 "js ''S1''"]
  have x: "createSignature H0 P1 (js ''S1'') = Hex_stringify (H0 (signatureString P1) (js ''S1''))"
    using t by blast
  have l: "length (createSignature H0 P1 (js ''S1'')) = 6"
    unfolding h by (simp add: js_def)
  have s: "sorted (map code_points (sortedKeys P1))" using t n by blast
  from d k c x h l s show ?thesis by blast
qed

section \<open>Properties of a request\<close>

lemma Error_not_AbortError: "err_name (Error msg) \<noteq> js ''AbortError''"
  by (simp add: Error_def js_def)

lemma is_Fetch_debug_log: "filter is_Fetch (debug_log cfg args) = []"
  by (simp add: debug_log_def)

lemma cfg0_complete: "scriptUrl cfg0 \<noteq> []" "apiToken cfg0 \<noteq> []" "hmacSecret cfg0 \<noteq> []"
  by (simp_all add: cfg0_def js_def)

lemma env_of_simps:
  "URL_error (env_of outcomes i) url = None"
  "network (env_of outcomes i) url query = outcomes i"
  by (simp_all add: env_of_def)

text \<open>
  C3. With an empty endpoint URL, token or secret in the configuration, \<^verbatim>\<open>request\<close>
  throws the error for the incomplete configuration, and all it did is print that error: no
  timer is armed and no GET request is sent.
\<close>

theorem request_incomplete_configuration:
  assumes "scriptUrl cfg = [] \<or> apiToken cfg = [] \<or> hmacSecret cfg = []"
  shows "fst (request H cfg e params) = Inl ConfigurationIncomplete \<and>
     snd (request H cfg e params) =
       [Console Err [Text (js ''GoogleSheetsSecureAPI:''),
          Text (js ''API configuration incomplete. Please set scriptUrl, apiToken, and hmacSecret.'')]] \<and>
     filter is_Fetch (snd (request H cfg e params)) = []"
  using assms by (auto simp: request_def ConfigurationIncomplete_def Error_def)

theorem request_incomplete_configuration_witness:
  "apiToken (cfg0\<lparr>apiToken := []\<rparr>) = [] \<and>
   fst (request H0 (cfg0\<lparr>apiToken := []\<rparr>) (env_of (\<lambda>i. Responds 200 (Inr body_success)) 0) params0)
     = Inl ConfigurationIncomplete \<and>
   filter is_Fetch
     (snd (request H0 (cfg0\<lparr>apiToken := []\<rparr>) (env_of (\<lambda>i. Responds 200 (Inr body_success)) 0) params0)) = []"
  using request_incomplete_configuration
    [of "cfg0\<lparr>apiToken := []\<rparr>" H0 "env_of (\<lambda>i. Responds 200 (Inr body_success)) 0" params0]
  by simp

lemma request_responds:
  assumes "scriptUrl cfg \<noteq> []" "apiToken cfg \<noteq> []" "hmacSecret cfg \<noteq> []"
    and "URL_error e (scriptUrl cfg) = None"
    and "network e (scriptUrl cfg) (signed_params H cfg e params) = Responds st body"
  shows "fst (request H cfg e params) =
     (if \<not> response_ok st then Inl (HttpError st)
      else case body of
        Inl thrown \<Rightarrow> Inl (if err_name thrown = js ''AbortError'' then RequestTimeout else thrown)
      | Inr data \<Rightarrow>
          if status data = Some (js ''success'') then Inr data
          else Inl (RequestFailed (case message data of None \<Rightarrow> js ''Request failed''
                 | Some m \<Rightarrow> if m = [] then js ''Request failed'' else m)))"
  using assms
  by (auto simp: request_def request_try_def Let_def HttpError_def RequestFailed_def
      Error_not_AbortError split: sum.splits option.splits)

text \<open>
  C4, as stated, at the body \<^verbatim>\<open>{status: "error", message: ""}\<close> of a response with
  status code 200: the body has a message, the empty string, and the error thrown carries
  the generic string \<^verbatim>\<open>Request failed\<close>, not the body's message.
\<close>

theorem request_empty_message_counterexample:
  "message body_empty_message = Some [] \<and>
   fst (request H0 cfg0 (env_of (\<lambda>i. Responds 200 (Inr body_empty_message)) 0) params0)
     = Inl (RequestFailed (js ''Request failed'')) \<and>
   fst (request H0 cfg0 (env_of (\<lambda>i. Responds 200 (Inr body_empty_message)) 0) params0)
     \<noteq> Inl (RequestFailed [])"
proof -
  have "fst (request H0 cfg0 (env_of (\<lambda>i. Responds 200 (Inr body_empty_message)) 0) params0)
      = Inl (RequestFailed (js ''Request failed''))"
    using request_responds [OF cfg0_complete,
        of "env_of (\<lambda>i. Responds 200 (Inr body_empty_message)) 0" H0 params0 200
           "Inr body_empty_message"]
    by (simp add: env_of_simps response_ok_def body_empty_message_def js_def)
  then show ?thesis
    by (simp add: body_empty_message_def RequestFailed_def Error_def js_def)
qed

text \<open>
  C4, amended. When the response arrives: with a status code outside 200 to 299 the
  request fails with the HTTP error, whose message carries the status code; with a status
  code in 200 to 299 and a decoded body whose \<^verbatim>\<open>status\<close> is the string \<^verbatim>\<open>success\<close>
  it resolves with that body; with any other \<^verbatim>\<open>status\<close> it fails with the error
  carrying the body's message, or the generic string \<^verbatim>\<open>Request failed\<close> when the
  message is absent or the empty string.
\<close>

theorem request_response_handling:
  assumes "scriptUrl cfg \<noteq> []" "apiToken cfg \<noteq> []" "hmacSecret cfg \<noteq> []"
    and "URL_error e (scriptUrl cfg) = None"
    and "network e (scriptUrl cfg) (signed_params H cfg e params) = Responds st body"
  shows "(\<not> (200 \<le> st \<and> st \<le> 299) \<longrightarrow>
        fst (request H cfg e params) = Inl (HttpError st) \<and>
        err_message (HttpError st) = js ''HTTP error! Status: '' @ Number_toString st) \<and>
     (\<forall>data. 200 \<le> st \<and> st \<le> 299 \<and> body = Inr data \<longrightarrow>
        (status data = Some (js ''success'') \<longrightarrow> fst (request H cfg e params) = Inr data) \<and>
        (status data \<noteq> Some (js ''success'') \<longrightarrow>
           fst (request H cfg e params) = Inl (RequestFailed
             (case message data of
                None \<Rightarrow> js ''Request failed''
              | Some m \<Rightarrow> if m = [] then js ''Request failed'' else m))) \<and>
        (\<forall>m. err_message (RequestFailed m) = m))"
  using request_responds [OF assms]
  by (auto simp: response_ok_def HttpError_def RequestFailed_def Error_def)

theorem request_response_handling_witness:
  "fst (request H0 cfg0 (env_of (\<lambda>i. Responds 404 (Inr body_success)) 0) params0)
     = Inl (HttpError 404) \<and>
   err_message (HttpError 404) = js ''HTTP error! Status: 404'' \<and>
   fst (request H0 cfg0 (env_of (\<lambda>i. Responds 200 (Inr body_success)) 0) params0)
     = Inr body_success \<and>
   fst (request H0 cfg0 (env_of (\<lambda>i. Responds 200 (Inr body_error)) 0) params0)
     = Inl (RequestFailed (js ''bad token''))"
proof -
  note t = request_response_handling [OF cfg0_complete, of _ H0 params0]
  have 1: "fst (request H0 cfg0 (env_of (\<lambda>i. Responds 404 (Inr body_success)) 0) params0)
      = Inl (HttpError 404)"
    using t [of "env_of (\<lambda>i. Responds 404 (Inr body_success)) 0" 404 "Inr body_success"]
    by (simp add: env_of_simps)
  have 2: "err_message (HttpError 404) = js ''HTTP error! Status: 404''"
    by (simp add: HttpError_def Error_def Number_toString.simps js_def)
  have 3: "fst (request H0 cfg0 (env_of (\<lambda>i. Responds 200 (Inr body_success)) 0) params0)
      = Inr body_success"
    using t [of "env_of (\<lambda>i. Responds 200 (Inr body_success)) 0" 200 "Inr body_success"]
    by (simp add: env_of_simps body_success_def)
  have 4: "fst (request H0 cfg0 (env_of (\<lambda>i. Responds 200 (Inr body_error)) 0) params0)
      = Inl (RequestFailed (js ''bad token''))"
    using t [of "env_of (\<lambda>i. Responds 200 (Inr body_error)) 0" 200 "Inr body_error"]
    by (simp add: env_of_simps body_error_def js_def)
  from 1 2 3 4 show ?thesis by blast
qed

lemma request_timer_first:
  assumes "scriptUrl cfg \<noteq> []" "apiToken cfg \<noteq> []" "hmacSecret cfg \<noteq> []"
    and "URL_error e (scriptUrl cfg) = None"
    and "network e (scriptUrl cfg) (signed_params H cfg e params) = TimerFirst wording"
  shows "request H cfg e params =
     (Inl RequestTimeout,
      debug_log cfg [Text (js ''GoogleSheetsSecureAPI: Making request to:''),
                     Url (scriptUrl cfg) (signed_params H cfg e params)] @
      debug_log cfg [Text (js ''GoogleSheetsSecureAPI: Request params:''), Params params] @
      [SetTimeout (timeout cfg), Fetch (scriptUrl cfg) (signed_params H cfg e params), Abort,
       Console Err [Text (js ''GoogleSheetsSecureAPI: Request timeout'')]])"
  using assms by (simp add: request_def request_try_def Let_def AbortError_def)

text \<open>
  C5. When the timer armed with the configured timeout fires before the fetch has
  settled, the request that was sent is aborted and \<^verbatim>\<open>request\<close> fails with the timeout
  error: after the debug lines, the call arms the timer with \<open>timeout cfg\<close>, sends the
  GET request, aborts it, and prints the timeout.
\<close>

theorem request_timeout:
  assumes "scriptUrl cfg \<noteq> []" "apiToken cfg \<noteq> []" "hmacSecret cfg \<noteq> []"
    and "URL_error e (scriptUrl cfg) = None"
    and "network e (scriptUrl cfg) (signed_params H cfg e params) = TimerFirst wording"
  shows "fst (request H cfg e params) = Inl RequestTimeout \<and>
     err_message RequestTimeout = js ''Request timeout'' \<and>
     snd (request H cfg e params) =
       debug_log cfg [Text (js ''GoogleSheetsSecureAPI: Making request to:''),
                      Url (scriptUrl cfg) (signed_params H cfg e params)] @
       debug_log cfg [Text (js ''GoogleSheetsSecureAPI: Request params:''), Params params] @
       [SetTimeout (timeout cfg), Fetch (scriptUrl cfg) (signed_params H cfg e params), Abort,
        Console Err [Text (js ''GoogleSheetsSecureAPI: Request timeout'')]]"
  by (simp add: request_timer_first [OF assms] RequestTimeout_def Error_def)

theorem request_timeout_witness:
  "fst (request H0 cfg0 (env_of (\<lambda>i. TimerFirst (js ''The operation was aborted.'')) 0) params0)
     = Inl RequestTimeout \<and>
   snd (request H0 cfg0 (env_of (\<lambda>i. TimerFirst (js ''The operation was aborted.'')) 0) params0)
     = [SetTimeout 30000,
        Fetch (js ''https://example.test/api'')
          (signed_params H0 cfg0 (env_of (\<lambda>i. TimerFirst (js ''The operation was aborted.'')) 0) params0),
        Abort,
        Console Err [Text (js ''GoogleSheetsSecureAPI: Request timeout'')]]"
  using request_timeout [OF cfg0_complete,
      of "env_of (\<lambda>i. TimerFirst (js ''The operation was aborted.'')) 0" H0 params0
         "js ''The operation was aborted.''"]
  by (simp add: env_of_simps debug_log_def) (simp add: cfg0_def)

section \<open>The signed envelope\<close>

lemma obj_set_new: "key \<notin> set (Object_keys obj) \<Longrightarrow> obj_set obj key v = obj @ [(key, v)]"
  by (induction obj) (auto simp: Object_keys_def)

lemma Object_keys_obj_set:
  "set (Object_keys (obj_set obj key v)) = insert key (set (Object_keys obj))"
proof (induction obj)
  case Nil
  then show ?case by (simp add: Object_keys_def)
next
  case (Cons p obj)
  obtain k w where p: "p = (k, w)" by (cases p)
  from Cons show ?case
    unfolding p by (cases "k = key") (simp_all add: Object_keys_def insert_commute)
qed

lemma distinct_obj_set:
  "distinct (Object_keys obj) \<Longrightarrow> distinct (Object_keys (obj_set obj key v))"
proof (induction obj)
  case Nil
  then show ?case by (simp add: Object_keys_def)
next
  case (Cons p obj)
  obtain k w where p: "p = (k, w)" by (cases p)
  have "set (map fst (obj_set obj key v)) = insert key (set (map fst obj))"
    using Object_keys_obj_set [of obj key v] by (simp add: Object_keys_def)
  with Cons p show ?case by (auto simp: Object_keys_def)
qed

lemma obj_get_obj_set:
  "obj_get (obj_set obj key v) k = (if k = key then Some v else obj_get obj k)"
  by (induction obj) (auto simp: obj_get_def)

lemma fold_obj_set_distinct:
  "distinct (Object_keys (acc @ ps)) \<Longrightarrow>
   fold (\<lambda>(key, v) obj. obj_set obj key v) ps acc = acc @ ps"
proof (induction ps arbitrary: acc)
  case Nil
  then show ?case by simp
next
  case (Cons p ps)
  obtain k w where p: "p = (k, w)" by (cases p)
  from Cons.prems p have "k \<notin> set (Object_keys acc)" by (auto simp: Object_keys_def)
  then have "obj_set acc k w = acc @ [(k, w)]" by (rule obj_set_new)
  moreover from Cons.prems p have "distinct (Object_keys ((acc @ [(k, w)]) @ ps))" by simp
  ultimately show ?case using Cons.IH [of "acc @ [(k, w)]"] p by simp
qed

lemma spread_distinct: "distinct (Object_keys params) \<Longrightarrow> spread params = params"
  using fold_obj_set_distinct [of "[]" params] by (simp add: spread_def)

lemma keys_fold_obj_set:
  "set (Object_keys (fold (\<lambda>(key, v) obj. obj_set obj key v) ps acc)) =
   set (Object_keys acc) \<union> set (Object_keys ps)"
proof (induction ps arbitrary: acc)
  case Nil
  then show ?case by (simp add: Object_keys_def)
next
  case (Cons p ps)
  obtain k w where p: "p = (k, w)" by (cases p)
  have "set (Object_keys (p # ps)) = insert k (set (Object_keys ps))"
    by (simp add: p Object_keys_def)
  then show ?case
    using Cons.IH [of "obj_set acc k w"] by (simp add: p Object_keys_obj_set)
qed

lemma keys_spread: "set (Object_keys (spread params)) = set (Object_keys params)"
  using keys_fold_obj_set [of params "[]"] by (simp add: spread_def Object_keys_def)

lemma reserved_neq:
    "js ''token'' \<noteq> js ''timestamp''"
    "js ''token'' \<noteq> js ''referrer''"
    "js ''token'' \<noteq> js ''origin''"
    "js ''token'' \<noteq> js ''signature''"
    "js ''timestamp'' \<noteq> js ''token''"
    "js ''timestamp'' \<noteq> js ''referrer''"
    "js ''timestamp'' \<noteq> js ''origin''"
    "js ''timestamp'' \<noteq> js ''signature''"
    "js ''referrer'' \<noteq> js ''token''"
    "js ''referrer'' \<noteq> js ''timestamp''"
    "js ''referrer'' \<noteq> js ''origin''"
    "js ''referrer'' \<noteq> js ''signature''"
    "js ''origin'' \<noteq> js ''token''"
    "js ''origin'' \<noteq> js ''timestamp''"
    "js ''origin'' \<noteq> js ''referrer''"
    "js ''origin'' \<noteq> js ''signature''"
    "js ''signature'' \<noteq> js ''token''"
    "js ''signature'' \<noteq> js ''timestamp''"
    "js ''signature'' \<noteq> js ''referrer''"
    "js ''signature'' \<noteq> js ''origin''"
  by (simp_all add: js_def)

lemma secure_params_plain:
  assumes "distinct (Object_keys params)"
    and "set (Object_keys params) \<inter>
           {js ''token'', js ''timestamp'', js ''referrer'', js ''origin''} = {}"
  shows "secure_params cfg e params =
     params @ [(js ''token'', apiToken cfg), (js ''timestamp'', Number_toString (now e)),
               (js ''referrer'', page_origin e), (js ''origin'', page_origin e)]"
proof -
  from assms(2) have k: "js ''token'' \<notin> set (Object_keys params)"
    "js ''timestamp'' \<notin> set (Object_keys params)"
    "js ''referrer'' \<notin> set (Object_keys params)"
    "js ''origin'' \<notin> set (Object_keys params)"
    by auto
  show ?thesis
    using k
    by (simp add: secure_params_def spread_distinct [OF assms(1)] obj_set_new
        Object_keys_def reserved_neq)
qed

lemma signed_params_last:
  assumes "js ''signature'' \<notin> set (Object_keys params)"
  shows "signed_params H cfg e params =
     secure_params cfg e params @
       [(js ''signature'', createSignature H (secure_params cfg e params) (hmacSecret cfg))]"
proof -
  have "set (Object_keys (spread params)) = set (Object_keys params)"
    by (rule keys_spread)
  then have "js ''signature'' \<notin> set (Object_keys (secure_params cfg e params))"
    using assms by (simp add: secure_params_def Object_keys_obj_set reserved_neq)
  then show ?thesis by (simp add: signed_params_def Let_def obj_set_new)
qed

lemma request_try_fetches:
  assumes "URL_error e (scriptUrl cfg) = None"
  shows "filter is_Fetch (snd (request_try H cfg e params)) =
     [Fetch (scriptUrl cfg) (signed_params H cfg e params)]"
proof (cases "network e (scriptUrl cfg) (signed_params H cfg e params)")
  case (Responds st body)
  with assms show ?thesis
    by (cases body) (simp_all add: request_try_def Let_def is_Fetch_debug_log)
next
  case (Rejects fault)
  with assms show ?thesis
    by (simp add: request_try_def Let_def is_Fetch_debug_log)
next
  case (TimerFirst wording)
  with assms show ?thesis
    by (simp add: request_try_def Let_def is_Fetch_debug_log)
qed

lemma request_fetches:
  assumes "scriptUrl cfg \<noteq> []" "apiToken cfg \<noteq> []" "hmacSecret cfg \<noteq> []"
    and "URL_error e (scriptUrl cfg) = None"
  shows "filter is_Fetch (snd (request H cfg e params)) =
     [Fetch (scriptUrl cfg) (signed_params H cfg e params)]"
proof -
  obtain r evs where t: "request_try H cfg e params = (r, evs)"
    by (cases "request_try H cfg e params")
  then have "filter is_Fetch evs = [Fetch (scriptUrl cfg) (signed_params H cfg e params)]"
    using request_try_fetches [OF assms(4), of H params] by simp
  then show ?thesis
    using assms(1-3) t by (cases r) (simp_all add: request_def)
qed

lemma params0_plain:
  "distinct (Object_keys params0)"
  "set (Object_keys params0) \<inter>
     {js ''token'', js ''timestamp'', js ''referrer'', js ''origin'', js ''signature''} = {}"
  by (simp_all add: params0_def Object_keys_def js_def)

lemma env0_simps:
  "URL_error env0 url = None"
  "now env0 = 1700000000000"
  "page_origin env0 = js ''https://shop.example''"
  by (simp_all add: env0_def env_of_def)

lemma template_map_of:
  "key \<in> set (map fst P) \<Longrightarrow> template (map_of P key) = the (map_of P key)"
  by (cases "map_of P key") (auto simp: template_def map_of_eq_None_iff)

lemma createSignature_explicit:
  "createSignature H P S =
     Hex_stringify (H (join (js ''&'')
       (map (\<lambda>key. key @ js ''='' @ the (map_of P key)) (sort (map fst P)))) S)"
proof -
  have eq: "map (\<lambda>key. key @ js ''='' @ template (map_of P key)) (sort (map fst P)) =
      map (\<lambda>key. key @ js ''='' @ the (map_of P key)) (sort (map fst P))"
    by (rule map_cong [OF refl]) (simp add: template_map_of)
  show ?thesis
    unfolding createSignature_def computeHMAC_def signatureString_def sortedKeys_def
      Object_keys_def obj_get_def eq
    by (rule refl)
qed

lemma distinct_secure_params:
  "distinct (Object_keys params) \<Longrightarrow> distinct (Object_keys (secure_params cfg e params))"
  by (simp add: secure_params_def spread_distinct distinct_obj_set)

lemma distinct_signed_params:
  "distinct (Object_keys params) \<Longrightarrow> distinct (Object_keys (signed_params H cfg e params))"
  by (simp add: signed_params_def Let_def distinct_secure_params distinct_obj_set)

lemma obj_get_secure_params:
  "obj_get (secure_params cfg e params) (js ''token'') = Some (apiToken cfg)"
  "obj_get (secure_params cfg e params) (js ''timestamp'') = Some (Number_toString (now e))"
  "obj_get (secure_params cfg e params) (js ''referrer'') = Some (page_origin e)"
  "obj_get (secure_params cfg e params) (js ''origin'') = Some (page_origin e)"
  by (simp_all add: secure_params_def obj_get_obj_set reserved_neq)

lemma obj_get_secure_params_other:
  assumes "distinct (Object_keys params)"
    and "key \<notin> {js ''token'', js ''timestamp'', js ''referrer'', js ''origin''}"
  shows "obj_get (secure_params cfg e params) key = obj_get params key"
  using assms(2) by (simp add: secure_params_def obj_get_obj_set spread_distinct [OF assms(1)])

lemma obj_get_signed_params:
  "obj_get (signed_params H cfg e params) key =
     (if key = js ''signature''
      then Some (createSignature H (secure_params cfg e params) (hmacSecret cfg))
      else obj_get (secure_params cfg e params) key)"
  by (simp add: signed_params_def Let_def obj_get_obj_set)

text \<open>
  C2, as stated, at the parameters \<^verbatim>\<open>{signature: "X", action: "getData"}\<close>: the
  assignment of \<^verbatim>\<open>requestParams.signature\<close> writes an existing key, which keeps its place.
  In the query that is sent, \<^verbatim>\<open>signature\<close> is the first field and \<^verbatim>\<open>origin\<close> the
  final one.
\<close>

theorem request_signature_not_final_counterexample:
  "Object_keys (signed_params H0 cfg0 env0 params_signed) =
     [js ''signature'', js ''action'', js ''token'', js ''timestamp'', js ''referrer'', js ''origin''] \<and>
   fst (last (signed_params H0 cfg0 env0 params_signed)) = js ''origin'' \<and>
   filter is_Fetch (snd (request H0 cfg0 env0 params_signed)) =
     [Fetch (js ''https://example.test/api'') (signed_params H0 cfg0 env0 params_signed)]"
proof -
  have k: "Object_keys (signed_params H0 cfg0 env0 params_signed) =
     [js ''signature'', js ''action'', js ''token'', js ''timestamp'', js ''referrer'', js ''origin'']"
    "fst (last (signed_params H0 cfg0 env0 params_signed)) = js ''origin''"
    by (simp_all add: signed_params_def secure_params_def spread_def params_signed_def
        Object_keys_def Let_def js_def)
  have f: "filter is_Fetch (snd (request H0 cfg0 env0 params_signed)) =
     [Fetch (js ''https://example.test/api'') (signed_params H0 cfg0 env0 params_signed)]"
    using request_fetches [OF cfg0_complete env0_simps(1), of H0 params_signed]
    by (simp add: cfg0_def)
  from k f show ?thesis by blast
qed

text \<open>
  C2, amended. \<^verbatim>\<open>request\<close> sends one GET request, whose query is the envelope: the copy
  of the caller's parameters with \<^verbatim>\<open>token\<close>, \<^verbatim>\<open>timestamp\<close> (the decimal digits of
  \<^verbatim>\<open>Date.now()\<close>), \<^verbatim>\<open>referrer\<close> and \<^verbatim>\<open>origin\<close> (both the page origin) written into
  it, and then \<^verbatim>\<open>signature\<close>: the digest, in hexadecimal, of the string \<^verbatim>\<open>k=v&...\<close> over
  all keys of that object in sorted order, keyed by the secret. The signature is the final
  field when the caller's parameters hold no \<^verbatim>\<open>signature\<close> key. When they hold none of
  the five keys, the query is the caller's parameters in their order, then \<^verbatim>\<open>token\<close>,
  \<^verbatim>\<open>timestamp\<close>, \<^verbatim>\<open>referrer\<close>, \<^verbatim>\<open>origin\<close>, then \<^verbatim>\<open>signature\<close>, computed over the
  sorted string of the fields before it.
\<close>

theorem request_envelope:
  assumes "scriptUrl cfg \<noteq> []" "apiToken cfg \<noteq> []" "hmacSecret cfg \<noteq> []"
    and "URL_error e (scriptUrl cfg) = None"
    and "distinct (map fst params)"
  shows "filter is_Fetch (snd (request H cfg e params)) =
       [Fetch (scriptUrl cfg) (signed_params H cfg e params)] \<and>
     distinct (map fst (secure_params cfg e params)) \<and>
     map_of (secure_params cfg e params) (js ''token'') = Some (apiToken cfg) \<and>
     map_of (secure_params cfg e params) (js ''timestamp'') = Some (Number_toString (now e)) \<and>
     map_of (secure_params cfg e params) (js ''referrer'') = Some (page_origin e) \<and>
     map_of (secure_params cfg e params) (js ''origin'') = Some (page_origin e) \<and>
     (\<forall>key. key \<notin> {js ''token'', js ''timestamp'', js ''referrer'', js ''origin''} \<longrightarrow>
        map_of (secure_params cfg e params) key = map_of params key) \<and>
     distinct (map fst (signed_params H cfg e params)) \<and>
     (\<forall>key. key \<noteq> js ''signature'' \<longrightarrow>
        map_of (signed_params H cfg e params) key = map_of (secure_params cfg e params) key) \<and>
     map_of (signed_params H cfg e params) (js ''signature'') =
       Some (Hex_stringify (H (join (js ''&'')
         (map (\<lambda>key. key @ js ''='' @ the (map_of (secure_params cfg e params) key))
            (sort (map fst (secure_params cfg e params))))) (hmacSecret cfg))) \<and>
     (js ''signature'' \<notin> set (map fst params) \<longrightarrow>
        signed_params H cfg e params =
          secure_params cfg e params @
            [(js ''signature'',
              Hex_stringify (H (join (js ''&'')
                (map (\<lambda>key. key @ js ''='' @ the (map_of (secure_params cfg e params) key))
                   (sort (map fst (secure_params cfg e params))))) (hmacSecret cfg)))]) \<and>
     (set (map fst params) \<inter>
        {js ''token'', js ''timestamp'', js ''referrer'', js ''origin'', js ''signature''} = {} \<longrightarrow>
        signed_params H cfg e params =
          params @
          [(js ''token'', apiToken cfg), (js ''timestamp'', Number_toString (now e)),
           (js ''referrer'', page_origin e), (js ''origin'', page_origin e)] @
          [(js ''signature'',
            Hex_stringify (H (join (js ''&'')
              (map (\<lambda>key. key @ js ''='' @
                 the (map_of (params @
                   [(js ''token'', apiToken cfg), (js ''timestamp'', Number_toString (now e)),
                    (js ''referrer'', page_origin e), (js ''origin'', page_origin e)]) key))
                 (sort (map fst params @
                   [js ''token'', js ''timestamp'', js ''referrer'', js ''origin''])))) (hmacSecret cfg)))])"
proof -
  have d: "distinct (Object_keys params)"
    using assms(5) by (simp add: Object_keys_def)
  have 1: "filter is_Fetch (snd (request H cfg e params)) =
       [Fetch (scriptUrl cfg) (signed_params H cfg e params)]"
    using assms(1-4) by (rule request_fetches)
  have 2: "distinct (map fst (secure_params cfg e params))"
    "distinct (map fst (signed_params H cfg e params))"
    using distinct_secure_params [OF d, of cfg e] distinct_signed_params [OF d, of H cfg e]
    by (simp_all add: Object_keys_def)
  have 3: "map_of (secure_params cfg e params) (js ''token'') = Some (apiToken cfg)"
    "map_of (secure_params cfg e params) (js ''timestamp'') = Some (Number_toString (now e))"
    "map_of (secure_params cfg e params) (js ''referrer'') = Some (page_origin e)"
    "map_of (secure_params cfg e params) (js ''origin'') = Some (page_origin e)"
    using obj_get_secure_params [of cfg e params] by (simp_all add: obj_get_def)
  have 4: "\<forall>key. key \<notin> {js ''token'', js ''timestamp'', js ''referrer'', js ''origin''} \<longrightarrow>
        map_of (secure_params cfg e params) key = map_of params key"
    using obj_get_secure_params_other [OF d, of _ cfg e] by (simp add: obj_get_def)
  have 5: "\<forall>key. key \<noteq> js ''signature'' \<longrightarrow>
        map_of (signed_params H cfg e params) key = map_of (secure_params cfg e params) key"
    using obj_get_signed_params [of H cfg e params] by (simp add: obj_get_def)
  have 6: "map_of (signed_params H cfg e params) (js ''signature'') =
       Some (Hex_stringify (H (join (js ''&'')
         (map (\<lambda>key. key @ js ''='' @ the (map_of (secure_params cfg e params) key))
            (sort (map fst (secure_params cfg e params))))) (hmacSecret cfg)))"
    using obj_get_signed_params [of H cfg e params "js ''signature''"]
    by (simp add: obj_get_def createSignature_explicit)
  have 7: "js ''signature'' \<notin> set (map fst params) \<longrightarrow>
        signed_params H cfg e params =
          secure_params cfg e params @
            [(js ''signature'',
              Hex_stringify (H (join (js ''&'')
                (map (\<lambda>key. key @ js ''='' @ the (map_of (secure_params cfg e params) key))
                   (sort (map fst (secure_params cfg e params))))) (hmacSecret cfg)))]"
    using signed_params_last [of params H cfg e]
    by (simp add: Object_keys_def createSignature_explicit)
  have 8: "set (map fst params) \<inter>
        {js ''token'', js ''timestamp'', js ''referrer'', js ''origin'', js ''signature''} = {} \<longrightarrow>
        signed_params H cfg e params =
          params @
          [(js ''token'', apiToken cfg), (js ''timestamp'', Number_toString (now e)),
           (js ''referrer'', page_origin e), (js ''origin'', page_origin e)] @
          [(js ''signature'',
            Hex_stringify (H (join (js ''&'')
              (map (\<lambda>key. key @ js ''='' @
                 the (map_of (params @
                   [(js ''token'', apiToken cfg), (js ''timestamp'', Number_toString (now e)),
                    (js ''referrer'', page_origin e), (js ''origin'', page_origin e)]) key))
                 (sort (map fst params @
                   [js ''token'', js ''timestamp'', js ''referrer'', js ''origin''])))) (hmacSecret cfg)))]"
  proof
    assume r: "set (map fst params) \<inter>
        {js ''token'', js ''timestamp'', js ''referrer'', js ''origin'', js ''signature''} = {}"
    then have s: "js ''signature'' \<notin> set (map fst params)" by auto
    from r have "set (Object_keys params) \<inter>
        {js ''token'', js ''timestamp'', js ''referrer'', js ''origin''} = {}"
      by (auto simp: Object_keys_def)
    then have p: "secure_params cfg e params =
        params @ [(js ''token'', apiToken cfg), (js ''timestamp'', Number_toString (now e)),
                  (js ''referrer'', page_origin e), (js ''origin'', page_origin e)]"
      by (rule secure_params_plain [OF d])
    from 7 s have "signed_params H cfg e params =
          secure_params cfg e params @
            [(js ''signature'',
              Hex_stringify (H (join (js ''&'')
                (map (\<lambda>key. key @ js ''='' @ the (map_of (secure_params cfg e params) key))
                   (sort (map fst (secure_params cfg e params))))) (hmacSecret cfg)))]"
      by blast
    then show "signed_params H cfg e params =
          params @
          [(js ''token'', apiToken cfg), (js ''timestamp'', Number_toString (now e)),
           (js ''referrer'', page_origin e), (js ''origin'', page_origin e)] @
          [(js ''signature'',
            Hex_stringify (H (join (js ''&'')
              (map (\<lambda>key. key @ js ''='' @
                 the (map_of (params @
                   [(js ''token'', apiToken cfg), (js ''timestamp'', Number_toString (now e)),
                    (js ''referrer'', page_origin e), (js ''origin'', page_origin e)]) key))
                 (sort (map fst params @
                   [js ''token'', js ''timestamp'', js ''referrer'', js ''origin''])))) (hmacSecret cfg)))]"
      unfolding p by simp
  qed
  from 1 2 3 4 5 6 7 8 show ?thesis by blast
qed

theorem request_envelope_witness:
  "signed_params H1 cfg0 env0 params0 =
     [(js ''action'', js ''getData''), (js ''token'', js ''T1''),
      (js ''timestamp'', js ''1700000000000''),
      (js ''referrer'', js ''https://shop.example''), (js ''origin'', js ''https://shop.example''),
      (js ''signature'',
       Hex_stringify (H1
         (js ''action=getData&origin=https://shop.example&referrer=https://shop.example&timestamp=1700000000000&token=T1'')
         (js ''S1'')))] \<and>
   filter is_Fetch (snd (request H1 cfg0 env0 params0)) =
     [Fetch (js ''https://example.test/api'') (signed_params H1 cfg0 env0 params0)]"
proof -
  have d: "distinct (map fst params0)"
    and r: "set (map fst params0) \<inter>
        {js ''token'', js ''timestamp'', js ''referrer'', js ''origin'', js ''signature''} = {}"
    using params0_plain by (simp_all add: Object_keys_def)
  note t = request_envelope [where cfg = cfg0 and e = env0 and params = params0 and H = H1,
      OF cfg0_complete env0_simps(1) d]
  have c: "apiToken cfg0 = js ''T1''" "hmacSecret cfg0 = js ''S1''"
    "scriptUrl cfg0 = js ''https://example.test/api''"
    by (simp_all add: cfg0_def)
  have n: "Number_toString 1700000000000 = js ''1700000000000''"
    by (simp add: Number_toString.simps js_def)
  have "signed_params H1 cfg0 env0 params0 =
          params0 @
          [(js ''token'', js ''T1''), (js ''timestamp'', js ''1700000000000''),
           (js ''referrer'', js ''https://shop.example''), (js ''origin'', js ''https://shop.example'')] @
          [(js ''signature'',
            Hex_stringify (H1 (join (js ''&'')
              (map (\<lambda>key. key @ js ''='' @
                 the (map_of (params0 @
                   [(js ''token'', js ''T1''), (js ''timestamp'', js ''1700000000000''),
                    (js ''referrer'', js ''https://shop.example''),
                    (js ''origin'', js ''https://shop.example'')]) key))
                 (sort (map fst params0 @
                   [js ''token'', js ''timestamp'', js ''referrer'', js ''origin''])))) (js ''S1'')))]"
    using t r by (simp only: c n env0_simps)
  moreover have "join (js ''&'')
      (map (\<lambda>key. key @ js ''='' @
         the (map_of (params0 @
           [(js ''token'', js ''T1''), (js ''timestamp'', js ''1700000000000''),
            (js ''referrer'', js ''https://shop.example''),
            (js ''origin'', js ''https://shop.example'')]) key))
         (sort (map fst params0 @
           [js ''token'', js ''timestamp'', js ''referrer'', js ''origin'']))) =
      js ''action=getData&origin=https://shop.example&referrer=https://shop.example&timestamp=1700000000000&token=T1''"
    by (simp add: params0_def js_def)
  ultimately have 1: "signed_params H1 cfg0 env0 params0 =
     [(js ''action'', js ''getData''), (js ''token'', js ''T1''),
      (js ''timestamp'', js ''1700000000000''),
      (js ''referrer'', js ''https://shop.example''), (js ''origin'', js ''https://shop.example''),
      (js ''signature'',
       Hex_stringify (H1
         (js ''action=getData&origin=https://shop.example&referrer=https://shop.example&timestamp=1700000000000&token=T1'')
         (js ''S1'')))]"
    by (simp add: params0_def)
  have 2: "filter is_Fetch (snd (request H1 cfg0 env0 params0)) =
     [Fetch (js ''https://example.test/api'') (signed_params H1 cfg0 env0 params0)]"
    using t by (simp only: c)
  from 1 2 show ?thesis by blast
qed

section \<open>Reserved keys in the caller's parameters\<close>

lemma obj_set_agree:
  "list_all2 (\<lambda>p q. fst p = fst q \<and> (fst p \<noteq> k \<longrightarrow> snd p = snd q))
     (obj_set P k v) (obj_set P k v')"
  by (induction P) (auto simp: list_all2_refl)

lemma agree_obj_set:
  assumes "list_all2 (\<lambda>p q. fst p = fst q \<and> (fst p \<noteq> k \<longrightarrow> snd p = snd q)) P Q"
  shows "list_all2 (\<lambda>p q. fst p = fst q \<and> (fst p \<noteq> k \<longrightarrow> snd p = snd q))
     (obj_set P key w) (obj_set Q key w)"
  using assms
proof (induction rule: list_all2_induct)
  case Nil
  then show ?case by simp
next
  case (Cons p P q Q)
  then show ?case by (cases p; cases q) auto
qed

lemma agree_without_key:
  assumes "list_all2 (\<lambda>p q. fst p = fst q \<and> (fst p \<noteq> k \<longrightarrow> snd p = snd q)) P Q"
    and "k \<notin> set (Object_keys P)"
  shows "P = Q"
  using assms
proof (induction rule: list_all2_induct)
  case Nil
  then show ?case by simp
next
  case (Cons p P q Q)
  then show ?case by (cases p; cases q) (auto simp: Object_keys_def)
qed

lemma agree_overwrite:
  assumes "list_all2 (\<lambda>p q. fst p = fst q \<and> (fst p \<noteq> k \<longrightarrow> snd p = snd q)) P Q"
    and "distinct (Object_keys P)"
  shows "obj_set P k u = obj_set Q k u"
  using assms
proof (induction rule: list_all2_induct)
  case Nil
  then show ?case by simp
next
  case (Cons p P q Q)
  obtain a w where p: "p = (a, w)" by (cases p)
  obtain b x where q: "q = (b, x)" by (cases q)
  show ?case
  proof (cases "a = k")
    case True
    with Cons.prems p have "k \<notin> set (Object_keys P)" by (simp add: Object_keys_def)
    with Cons.hyps(2) have "P = Q" by (rule agree_without_key)
    with True Cons.hyps(1) p q show ?thesis by simp
  next
    case False
    with Cons p q show ?thesis by (simp add: Object_keys_def)
  qed
qed

lemma agree_fold:
  assumes "list_all2 (\<lambda>p q. fst p = fst q \<and> (fst p \<noteq> k \<longrightarrow> snd p = snd q)) P Q"
    and "distinct (Object_keys P)"
    and "k \<in> fst ` set kvs"
  shows "fold (\<lambda>(key, v) obj. obj_set obj key v) kvs P =
         fold (\<lambda>(key, v) obj. obj_set obj key v) kvs Q"
  using assms
proof (induction kvs arbitrary: P Q)
  case Nil
  then show ?case by simp
next
  case (Cons kv kvs)
  obtain key w where kv: "kv = (key, w)" by (cases kv)
  show ?case
  proof (cases "key = k")
    case True
    have "obj_set P k w = obj_set Q k w"
      using Cons.prems(1,2) by (rule agree_overwrite)
    with True kv show ?thesis by simp
  next
    case False
    have "list_all2 (\<lambda>p q. fst p = fst q \<and> (fst p \<noteq> k \<longrightarrow> snd p = snd q))
        (obj_set P key w) (obj_set Q key w)"
      using Cons.prems(1) by (rule agree_obj_set)
    moreover have "distinct (Object_keys (obj_set P key w))"
      using Cons.prems(2) by (rule distinct_obj_set)
    moreover have "k \<in> fst ` set kvs"
      using Cons.prems(3) False kv by auto
    ultimately show ?thesis using Cons.IH kv by simp
  qed
qed

lemma secure_params_fold:
  "secure_params cfg e params =
     fold (\<lambda>(key, v) obj. obj_set obj key v)
       [(js ''token'', apiToken cfg), (js ''timestamp'', Number_toString (now e)),
        (js ''referrer'', page_origin e), (js ''origin'', page_origin e)]
       (spread params)"
  by (simp add: secure_params_def)

lemma secure_params_overwrites:
  assumes "distinct (Object_keys params)"
    and "key \<in> {js ''token'', js ''timestamp'', js ''referrer'', js ''origin''}"
  shows "secure_params cfg e (obj_set params key v) = secure_params cfg e (obj_set params key v')"
proof -
  have d: "distinct (Object_keys (obj_set params key v))"
    "distinct (Object_keys (obj_set params key v'))"
    using assms(1) by (simp_all add: distinct_obj_set)
  have "key \<in> fst ` set [(js ''token'', apiToken cfg), (js ''timestamp'', Number_toString (now e)),
        (js ''referrer'', page_origin e), (js ''origin'', page_origin e)]"
    using assms(2) by auto
  with obj_set_agree [of key params v v'] d(1) show ?thesis
    unfolding secure_params_fold spread_distinct [OF d(1)] spread_distinct [OF d(2)]
    by (rule agree_fold)
qed

text \<open>
  C10, as stated, at the parameters \<^verbatim>\<open>{signature: "X"}\<close>: the string that is signed
  holds the caller's \<^verbatim>\<open>signature=X\<close>, and it is another string when the caller gives
  \<^verbatim>\<open>{signature: "Y"}\<close>. The caller's value of \<^verbatim>\<open>signature\<close> is signed.
\<close>

theorem reserved_signature_signed_counterexample:
  "signatureString (secure_params cfg0 env0 [(js ''signature'', js ''X'')]) =
     js ''origin=https://shop.example&referrer=https://shop.example&signature=X&timestamp=1700000000000&token=T1'' \<and>
   signatureString (secure_params cfg0 env0 [(js ''signature'', js ''X'')]) \<noteq>
   signatureString (secure_params cfg0 env0 [(js ''signature'', js ''Y'')])"
  by (simp add: secure_params_def spread_def signatureString_def sortedKeys_def Object_keys_def
      obj_get_def template_def cfg0_def env0_def env_of_def Number_toString.simps js_def)

text \<open>
  C10, amended. A value the caller gives for \<^verbatim>\<open>token\<close>, \<^verbatim>\<open>timestamp\<close>, \<^verbatim>\<open>referrer\<close>
  or \<^verbatim>\<open>origin\<close> is overwritten with the injected one before the signature is computed:
  the object that is signed and the object that is sent do not depend on it, and each
  holds the key once, with the injected value. A value the caller gives for
  \<^verbatim>\<open>signature\<close> is overwritten with the computed signature before the request is sent:
  the object that is sent holds \<^verbatim>\<open>signature\<close> once, with the computed signature (the
  digest of the sorted string over the object that was signed), and is otherwise the
  object that was signed.
\<close>

theorem reserved_keys_overwritten:
  assumes "distinct (map fst params)"
  shows "(key \<in> {js ''token'', js ''timestamp'', js ''referrer'', js ''origin''} \<longrightarrow>
        secure_params cfg e (obj_set params key v) = secure_params cfg e (obj_set params key v') \<and>
        signed_params H cfg e (obj_set params key v) = signed_params H cfg e (obj_set params key v')) \<and>
     distinct (map fst (secure_params cfg e params)) \<and>
     (\<forall>w. (js ''token'', w) \<in> set (secure_params cfg e params) \<longleftrightarrow> w = apiToken cfg) \<and>
     (\<forall>w. (js ''timestamp'', w) \<in> set (secure_params cfg e params) \<longleftrightarrow>
        w = Number_toString (now e)) \<and>
     (\<forall>w. (js ''referrer'', w) \<in> set (secure_params cfg e params) \<longleftrightarrow> w = page_origin e) \<and>
     (\<forall>w. (js ''origin'', w) \<in> set (secure_params cfg e params) \<longleftrightarrow> w = page_origin e) \<and>
     distinct (map fst (signed_params H cfg e params)) \<and>
     (\<forall>k w. k \<noteq> js ''signature'' \<longrightarrow>
        ((k, w) \<in> set (signed_params H cfg e params) \<longleftrightarrow>
         (k, w) \<in> set (secure_params cfg e params))) \<and>
     (\<forall>w. (js ''signature'', w) \<in> set (signed_params H cfg e params) \<longleftrightarrow>
        w = Hex_stringify (H (join (js ''&'')
              (map (\<lambda>key. key @ js ''='' @ the (map_of (secure_params cfg e params) key))
                 (sort (map fst (secure_params cfg e params))))) (hmacSecret cfg))) \<and>
     (scriptUrl cfg \<noteq> [] \<and> apiToken cfg \<noteq> [] \<and> hmacSecret cfg \<noteq> [] \<and>
      URL_error e (scriptUrl cfg) = None \<longrightarrow>
        filter is_Fetch (snd (request H cfg e params)) =
          [Fetch (scriptUrl cfg) (signed_params H cfg e params)])"
proof -
  have d: "distinct (Object_keys params)"
    using assms by (simp add: Object_keys_def)
  have 1: "key \<in> {js ''token'', js ''timestamp'', js ''referrer'', js ''origin''} \<longrightarrow>
        secure_params cfg e (obj_set params key v) = secure_params cfg e (obj_set params key v') \<and>
        signed_params H cfg e (obj_set params key v) = signed_params H cfg e (obj_set params key v')"
    using secure_params_overwrites [OF d, of key cfg e v v']
    by (simp add: signed_params_def)
  have 2: "distinct (map fst (secure_params cfg e params))"
    using distinct_secure_params [OF d, of cfg e] by (simp add: Object_keys_def)
  have 3: "distinct (map fst (signed_params H cfg e params))"
    using distinct_signed_params [OF d, of H cfg e] by (simp add: Object_keys_def)
  have m: "(k, w) \<in> set (secure_params cfg e params) \<longleftrightarrow>
      obj_get (secure_params cfg e params) k = Some w" for k w
    using 2 by (simp add: obj_get_def)
  have n: "(k, w) \<in> set (signed_params H cfg e params) \<longleftrightarrow>
      obj_get (signed_params H cfg e params) k = Some w" for k w
    using 3 by (simp add: obj_get_def)
  have 4: "\<forall>w. (js ''token'', w) \<in> set (secure_params cfg e params) \<longleftrightarrow> w = apiToken cfg"
    "\<forall>w. (js ''timestamp'', w) \<in> set (secure_params cfg e params) \<longleftrightarrow>
        w = Number_toString (now e)"
    "\<forall>w. (js ''referrer'', w) \<in> set (secure_params cfg e params) \<longleftrightarrow> w = page_origin e"
    "\<forall>w. (js ''origin'', w) \<in> set (secure_params cfg e params) \<longleftrightarrow> w = page_origin e"
    unfolding m by (auto simp: obj_get_secure_params)
  have 5: "\<forall>k w. k \<noteq> js ''signature'' \<longrightarrow>
        ((k, w) \<in> set (signed_params H cfg e params) \<longleftrightarrow>
         (k, w) \<in> set (secure_params cfg e params))"
    unfolding m n by (simp add: obj_get_signed_params)
  have 6: "\<forall>w. (js ''signature'', w) \<in> set (signed_params H cfg e params) \<longleftrightarrow>
        w = Hex_stringify (H (join (js ''&'')
              (map (\<lambda>key. key @ js ''='' @ the (map_of (secure_params cfg e params) key))
                 (sort (map fst (secure_params cfg e params))))) (hmacSecret cfg))"
    unfolding n by (auto simp: obj_get_signed_params createSignature_explicit)
  have 7: "scriptUrl cfg \<noteq> [] \<and> apiToken cfg \<noteq> [] \<and> hmacSecret cfg \<noteq> [] \<and>
      URL_error e (scriptUrl cfg) = None \<longrightarrow>
        filter is_Fetch (snd (request H cfg e params)) =
          [Fetch (scriptUrl cfg) (signed_params H cfg e params)]"
    using request_fetches by blast
  from 1 2 3 4 5 6 7 show ?thesis by blast
qed

lemma Hex_stringify_H0_not_X: "Hex_stringify (H0 msg key) \<noteq> js ''X''"
proof
  assume "Hex_stringify (H0 msg key) = js ''X''"
  then have "length (Hex_stringify (H0 msg key)) = length (js ''X'')" by simp
  then show False by (simp add: length_Hex_stringify H0_def js_def)
qed

theorem reserved_keys_overwritten_witness:
  "obj_set params_forged (js ''token'') (js ''forged'') = params_forged \<and>
   signed_params H0 cfg0 env0 params_forged =
     signed_params H0 cfg0 env0 (obj_set params_forged (js ''token'') (js ''T1'')) \<and>
   (js ''token'', js ''forged'') \<notin> set (secure_params cfg0 env0 params_forged) \<and>
   (js ''token'', js ''forged'') \<notin> set (signed_params H0 cfg0 env0 params_forged) \<and>
   (js ''token'', js ''T1'') \<in> set (signed_params H0 cfg0 env0 params_forged) \<and>
   (js ''signature'', js ''X'') \<in> set params_signed \<and>
   (js ''signature'', js ''X'') \<notin> set (signed_params H0 cfg0 env0 params_signed) \<and>
   filter is_Fetch (snd (request H0 cfg0 env0 params_forged)) =
     [Fetch (js ''https://example.test/api'') (signed_params H0 cfg0 env0 params_forged)] \<and>
   filter is_Fetch (snd (request H0 cfg0 env0 params_signed)) =
     [Fetch (js ''https://example.test/api'') (signed_params H0 cfg0 env0 params_signed)]"
proof -
  have d: "distinct (map fst params_forged)" "distinct (map fst params_signed)"
    by (simp_all add: params_forged_def params_signed_def js_def)
  have f: "obj_set params_forged (js ''token'') (js ''forged'') = params_forged"
    by (simp add: params_forged_def)
  have c: "apiToken cfg0 = js ''T1''" "scriptUrl cfg0 = js ''https://example.test/api''"
    by (simp_all add: cfg0_def)
  have ne: "js ''forged'' \<noteq> js ''T1''" by (simp add: js_def)
  note t = reserved_keys_overwritten [OF d(1), where cfg = cfg0 and e = env0 and H = H0
      and key = "js ''token''" and v = "js ''forged''" and v' = "js ''T1''"]
  note u = reserved_keys_overwritten [OF d(2), where cfg = cfg0 and e = env0 and H = H0
      and key = "js ''token''" and v = "js ''forged''" and v' = "js ''T1''"]
  note t_overwrite = t [THEN conjunct1]
  note t_token = t [THEN conjunct2, THEN conjunct2, THEN conjunct1]
  note t_other = t [THEN conjunct2, THEN conjunct2, THEN conjunct2, THEN conjunct2, THEN conjunct2, THEN conjunct2, THEN conjunct2, THEN conjunct1]
  note t_fetch = t [THEN conjunct2, THEN conjunct2, THEN conjunct2, THEN conjunct2, THEN conjunct2, THEN conjunct2, THEN conjunct2, THEN conjunct2, THEN conjunct2]
  note u_signature = u [THEN conjunct2, THEN conjunct2, THEN conjunct2, THEN conjunct2, THEN conjunct2, THEN conjunct2, THEN conjunct2, THEN conjunct2, THEN conjunct1]
  note u_fetch = u [THEN conjunct2, THEN conjunct2, THEN conjunct2, THEN conjunct2, THEN conjunct2, THEN conjunct2, THEN conjunct2, THEN conjunct2, THEN conjunct2]
  have 1: "signed_params H0 cfg0 env0 params_forged =
      signed_params H0 cfg0 env0 (obj_set params_forged (js ''token'') (js ''T1''))"
    using t_overwrite by (simp add: f)
  have 2: "(js ''token'', js ''forged'') \<notin> set (secure_params cfg0 env0 params_forged)"
    using t_token ne by (simp add: c)
  have 3: "(js ''token'', js ''forged'') \<notin> set (signed_params H0 cfg0 env0 params_forged)"
    using t_other 2 reserved_neq(4) by simp
  have "(js ''token'', js ''T1'') \<in> set (secure_params cfg0 env0 params_forged)"
    using t_token by (simp add: c)
  then have 4: "(js ''token'', js ''T1'') \<in> set (signed_params H0 cfg0 env0 params_forged)"
    using t_other reserved_neq(4) by simp
  have 5: "(js ''signature'', js ''X'') \<in> set params_signed"
    by (simp add: params_signed_def)
  have 6: "(js ''signature'', js ''X'') \<notin> set (signed_params H0 cfg0 env0 params_signed)"
    using u_signature Hex_stringify_H0_not_X [symmetric] by simp
  have 7: "filter is_Fetch (snd (request H0 cfg0 env0 params_forged)) =
      [Fetch (js ''https://example.test/api'') (signed_params H0 cfg0 env0 params_forged)]"
    using t_fetch cfg0_complete env0_simps(1) by (simp add: c)
  have 8: "filter is_Fetch (snd (request H0 cfg0 env0 params_signed)) =
      [Fetch (js ''https://example.test/api'') (signed_params H0 cfg0 env0 params_signed)]"
    using u_fetch cfg0_complete env0_simps(1) by (simp add: c)
  from f 1 2 3 4 5 6 7 8 show ?thesis by blast
qed

section \<open>Requests in sequence\<close>

lemma loop_all_succeed:
  assumes "length ds = length ps"
    and "\<forall>j < length ps. fst (request H cfg (envs (i0 + j)) (ps ! j)) = Inr (ds ! j)"
  shows "requestSequential_loop H cfg envs i0 ps acc =
     (Inr (acc @ ds),
      concat (map (\<lambda>j. snd (request H cfg (envs (i0 + j)) (ps ! j))) [0..<length ps]))"
  using assms
proof (induction ps arbitrary: i0 acc ds)
  case Nil
  then show ?case by simp
next
  case (Cons p ps)
  from Cons.prems(1) obtain d ds' where ds: "ds = d # ds'" "length ds' = length ps"
    by (cases ds) auto
  from Cons.prems(2) have "fst (request H cfg (envs (i0 + 0)) ((p # ps) ! 0)) = Inr (ds ! 0)"
    by blast
  then obtain evs where r: "request H cfg (envs i0) p = (Inr d, evs)"
    using ds by (cases "request H cfg (envs i0) p") auto
  have "\<forall>j < length ps. fst (request H cfg (envs (Suc i0 + j)) (ps ! j)) = Inr (ds' ! j)"
  proof (intro allI impI)
    fix j assume "j < length ps"
    then have "fst (request H cfg (envs (i0 + Suc j)) ((p # ps) ! Suc j)) = Inr (ds ! Suc j)"
      using Cons.prems(2) by auto
    then show "fst (request H cfg (envs (Suc i0 + j)) (ps ! j)) = Inr (ds' ! j)"
      using ds by simp
  qed
  from Cons.IH [OF ds(2) this, of "acc @ [d]"] r ds show ?case
    by (simp add: map_upt_Suc del: upt_Suc)
qed

lemma loop_first_failure:
  assumes "k < length ps"
    and "\<forall>j < k. \<exists>d. fst (request H cfg (envs (i0 + j)) (ps ! j)) = Inr d"
    and "fst (request H cfg (envs (i0 + k)) (ps ! k)) = Inl err"
  shows "requestSequential_loop H cfg envs i0 ps acc =
     (Inl err,
      concat (map (\<lambda>j. snd (request H cfg (envs (i0 + j)) (ps ! j))) [0..<Suc k]))"
  using assms
proof (induction ps arbitrary: i0 acc k)
  case Nil
  then show ?case by simp
next
  case (Cons p ps)
  show ?case
  proof (cases k)
    case 0
    with Cons.prems(3) obtain evs where "request H cfg (envs i0) p = (Inl err, evs)"
      by (cases "request H cfg (envs i0) p") auto
    with 0 show ?thesis by simp
  next
    case (Suc k')
    with Cons.prems(2) have "\<exists>d. fst (request H cfg (envs (i0 + 0)) ((p # ps) ! 0)) = Inr d"
      by blast
    then obtain d evs where r: "request H cfg (envs i0) p = (Inr d, evs)"
      by (cases "request H cfg (envs i0) p") auto
    have 1: "k' < length ps" using Cons.prems(1) Suc by simp
    have 2: "\<forall>j < k'. \<exists>d. fst (request H cfg (envs (Suc i0 + j)) (ps ! j)) = Inr d"
    proof (intro allI impI)
      fix j assume "j < k'"
      then have "\<exists>d. fst (request H cfg (envs (i0 + Suc j)) ((p # ps) ! Suc j)) = Inr d"
        using Cons.prems(2) Suc by auto
      then show "\<exists>d. fst (request H cfg (envs (Suc i0 + j)) (ps ! j)) = Inr d" by simp
    qed
    have 3: "fst (request H cfg (envs (Suc i0 + k')) (ps ! k')) = Inl err"
      using Cons.prems(3) Suc by simp
    from Cons.IH [OF 1 2 3, of "acc @ [d]"] r Suc show ?thesis
      by (simp add: map_upt_Suc del: upt_Suc)
  qed
qed

text \<open>
  C7. \<^verbatim>\<open>requestSequential\<close> makes the requests one after the other in the order of the
  array: what it does is what the requests do, one request's effects wholly before the
  next one's. When all of them succeed it resolves with their results in the order of the
  array. When the request at index \<open>k\<close> is the first to fail, it fails with that request's
  error, carrying none of the earlier results, and what it did is what the requests up to
  index \<open>k\<close> did: no later request is made.
\<close>

theorem requestSequential_in_order:
  "(length ds = length ps \<and>
    (\<forall>i < length ps. fst (request H cfg (envs i) (ps ! i)) = Inr (ds ! i)) \<longrightarrow>
      requestSequential H cfg envs ps =
        (Inr ds, concat (map (\<lambda>i. snd (request H cfg (envs i) (ps ! i))) [0..<length ps]))) \<and>
   (k < length ps \<and>
    (\<forall>i < k. \<exists>d. fst (request H cfg (envs i) (ps ! i)) = Inr d) \<and>
    fst (request H cfg (envs k) (ps ! k)) = Inl err \<longrightarrow>
      requestSequential H cfg envs ps =
        (Inl err, concat (map (\<lambda>i. snd (request H cfg (envs i) (ps ! i))) [0..<Suc k])))"
  using loop_all_succeed [of ds ps H cfg envs 0 "[]"]
    loop_first_failure [of k ps H cfg envs 0 err "[]"]
  by (simp add: requestSequential_def)

lemma request_example_success:
  assumes "outcomes i = Responds 200 (Inr body_success)"
  shows "fst (request H0 cfg0 (env_of outcomes i) params) = Inr body_success"
  using request_responds [OF cfg0_complete, of "env_of outcomes i" H0 params 200 "Inr body_success"] assms
  by (simp add: env_of_simps response_ok_def body_success_def)

lemma request_example_error:
  assumes "outcomes i = Responds 200 (Inr body_error)"
  shows "fst (request H0 cfg0 (env_of outcomes i) params) = Inl (RequestFailed (js ''bad token''))"
  using request_responds [OF cfg0_complete, of "env_of outcomes i" H0 params 200 "Inr body_error"] assms
  by (simp add: env_of_simps response_ok_def body_error_def js_def)

lemma request_example_fetches:
  "filter is_Fetch (snd (request H0 cfg0 (env_of outcomes i) params)) =
     [Fetch (js ''https://example.test/api'') (signed_params H0 cfg0 (env_of outcomes i) params)]"
  using request_fetches [OF cfg0_complete, of "env_of outcomes i" H0 params]
  by (simp add: env_of_simps) (simp add: cfg0_def)

theorem requestSequential_in_order_witness:
  "requestSequential H0 cfg0 (env_of all_succeed) [params0, P1] =
     (Inr [body_success, body_success],
      snd (request H0 cfg0 (env_of all_succeed 0) params0) @
      snd (request H0 cfg0 (env_of all_succeed 1) P1)) \<and>
   requestSequential H0 cfg0 (env_of second_fails) [params0, P1, Q1] =
     (Inl (RequestFailed (js ''bad token'')),
      snd (request H0 cfg0 (env_of second_fails 0) params0) @
      snd (request H0 cfg0 (env_of second_fails 1) P1)) \<and>
   filter is_Fetch (snd (requestSequential H0 cfg0 (env_of second_fails) [params0, P1, Q1])) =
     [Fetch (js ''https://example.test/api'') (signed_params H0 cfg0 (env_of second_fails 0) params0),
      Fetch (js ''https://example.test/api'') (signed_params H0 cfg0 (env_of second_fails 1) P1)]"
proof -
  have a: "\<forall>i < length [params0, P1].
      fst (request H0 cfg0 (env_of all_succeed i) ([params0, P1] ! i)) =
      Inr ([body_success, body_success] ! i)"
  proof (intro allI impI)
    fix i assume "i < length [params0, P1]"
    then consider "i = 0" | "i = 1" by fastforce
    then show "fst (request H0 cfg0 (env_of all_succeed i) ([params0, P1] ! i)) =
        Inr ([body_success, body_success] ! i)"
      by cases (simp_all add: request_example_success all_succeed_def)
  qed
  have 1: "requestSequential H0 cfg0 (env_of all_succeed) [params0, P1] =
     (Inr [body_success, body_success],
      snd (request H0 cfg0 (env_of all_succeed 0) params0) @
      snd (request H0 cfg0 (env_of all_succeed 1) P1))"
    using requestSequential_in_order
      [of "[body_success, body_success]" "[params0, P1]" H0 cfg0 "env_of all_succeed"] a
    by (simp add: upt_rec)
  have b: "\<forall>i < 1. \<exists>d. fst (request H0 cfg0 (env_of second_fails i) ([params0, P1, Q1] ! i)) = Inr d"
    by (simp add: request_example_success second_fails_def)
  have c: "fst (request H0 cfg0 (env_of second_fails 1) ([params0, P1, Q1] ! 1)) =
      Inl (RequestFailed (js ''bad token''))"
    by (simp add: request_example_error second_fails_def)
  have 2: "requestSequential H0 cfg0 (env_of second_fails) [params0, P1, Q1] =
     (Inl (RequestFailed (js ''bad token'')),
      snd (request H0 cfg0 (env_of second_fails 0) params0) @
      snd (request H0 cfg0 (env_of second_fails 1) P1))"
    using requestSequential_in_order
      [of _ "[params0, P1, Q1]" H0 cfg0 "env_of second_fails" 1 "RequestFailed (js ''bad token'')"] b c
    by (simp add: upt_rec)
  have 3: "filter is_Fetch (snd (requestSequential H0 cfg0 (env_of second_fails) [params0, P1, Q1])) =
     [Fetch (js ''https://example.test/api'') (signed_params H0 cfg0 (env_of second_fails 0) params0),
      Fetch (js ''https://example.test/api'') (signed_params H0 cfg0 (env_of second_fails 1) P1)]"
    unfolding 2 by (simp add: request_example_fetches)
  from 1 2 3 show ?thesis by blast
qed

section \<open>The timeout of the configuration\<close>

lemma timeout_initial_config:
  "timeout (initial_config opts) =
     (case opt_timeout opts of None \<Rightarrow> 30000 | Some t \<Rightarrow> if t = 0 then 30000 else t)"
  by (simp add: initial_config_def)

lemma timeout_configure:
  "timeout (snd (fst (configure cryptojs cfg opts))) =
     (case opt_timeout opts of None \<Rightarrow> timeout cfg | Some t \<Rightarrow> t)"
  by (simp add: configure_def merge_def Let_def split: prod.splits)

lemma constructor_Inr: "constructor cryptojs opts = (Inr c, evs) \<Longrightarrow> c = initial_config opts"
  by (simp add: constructor_def Let_def split: prod.splits option.splits)

text \<open>
  C9, as stated, at \<^verbatim>\<open>configure({timeout: 0})\<close> on the client of the scenario, whose
  timeout is the default 30000, and at the construction with \<^verbatim>\<open>timeout: -5\<close>: the
  timeout becomes 0 and -5.
\<close>

theorem timeout_positive_counterexample:
  "fst (constructor True options0 :: (js_error + config) \<times> unit event list) = Inr cfg0 \<and>
   timeout cfg0 = 30000 \<and>
   timeout (snd (fst (configure True cfg0 (no_options\<lparr>opt_timeout := Some 0\<rparr>)
     :: (js_error option \<times> config) \<times> unit event list))) = 0 \<and>
   fst (constructor True (options0\<lparr>opt_timeout := Some (- 5)\<rparr>)
     :: (js_error + config) \<times> unit event list) = Inr (cfg0\<lparr>timeout := - 5\<rparr>)"
  by (simp add: constructor_def configure_def merge_def initial_config_def validateConfig_def
      options0_def no_options_def cfg0_def js_def)

text \<open>
  C9, amended. Construction replaces an absent timeout (and a timeout of 0) with the
  default 30000 and keeps any other timeout it is given; \<^verbatim>\<open>enableDebug\<close> and
  \<^verbatim>\<open>disableDebug\<close> keep the timeout; \<^verbatim>\<open>configure\<close> keeps the timeout when the options
  give none and takes the given one otherwise, so a positive timeout stays positive when
  the options give no timeout or a positive one.
\<close>

theorem timeout_default_and_preservation:
  "(opt_timeout opts = None \<or> opt_timeout opts = Some 0 \<longrightarrow>
      timeout (initial_config opts) = 30000) \<and>
   (\<forall>t. opt_timeout opts = Some t \<and> t \<noteq> 0 \<longrightarrow> timeout (initial_config opts) = t) \<and>
   (\<forall>c evs. constructor cryptojs opts = (Inr c, evs :: 'p event list) \<longrightarrow> c = initial_config opts) \<and>
   timeout (enableDebug cfg) = timeout cfg \<and>
   timeout (disableDebug cfg) = timeout cfg \<and>
   (opt_timeout opts = None \<longrightarrow>
      timeout (snd (fst (configure cryptojs cfg opts :: (js_error option \<times> config) \<times> 'p event list)))
        = timeout cfg) \<and>
   (\<forall>t. opt_timeout opts = Some t \<longrightarrow>
      timeout (snd (fst (configure cryptojs cfg opts :: (js_error option \<times> config) \<times> 'p event list)))
        = t) \<and>
   (0 < timeout cfg \<and> (opt_timeout opts = None \<or> (\<exists>t. opt_timeout opts = Some t \<and> 0 < t)) \<longrightarrow>
      0 < timeout (snd (fst (configure cryptojs cfg opts :: (js_error option \<times> config) \<times> 'p event list))))"
proof -
  have 1: "opt_timeout opts = None \<or> opt_timeout opts = Some 0 \<longrightarrow>
      timeout (initial_config opts) = 30000"
    by (auto simp: timeout_initial_config)
  have 2: "\<forall>t. opt_timeout opts = Some t \<and> t \<noteq> 0 \<longrightarrow> timeout (initial_config opts) = t"
    by (simp add: timeout_initial_config)
  have 3: "\<forall>c evs. constructor cryptojs opts = (Inr c, evs :: 'p event list) \<longrightarrow>
      c = initial_config opts"
    using constructor_Inr by blast
  have 4: "timeout (enableDebug cfg) = timeout cfg" "timeout (disableDebug cfg) = timeout cfg"
    by (simp_all add: enableDebug_def disableDebug_def)
  have 5: "opt_timeout opts = None \<longrightarrow>
      timeout (snd (fst (configure cryptojs cfg opts :: (js_error option \<times> config) \<times> 'p event list)))
        = timeout cfg"
    by (simp add: timeout_configure)
  have 6: "\<forall>t. opt_timeout opts = Some t \<longrightarrow>
      timeout (snd (fst (configure cryptojs cfg opts :: (js_error option \<times> config) \<times> 'p event list)))
        = t"
    by (simp add: timeout_configure)
  have 7: "0 < timeout cfg \<and> (opt_timeout opts = None \<or> (\<exists>t. opt_timeout opts = Some t \<and> 0 < t)) \<longrightarrow>
      0 < timeout (snd (fst (configure cryptojs cfg opts :: (js_error option \<times> config) \<times> 'p event list)))"
    by (auto simp: timeout_configure)
  from 1 2 3 4 5 6 7 show ?thesis by blast
qed

theorem timeout_default_and_preservation_witness:
  "opt_timeout options0 = None \<and> timeout (initial_config options0) = 30000 \<and>
   timeout (initial_config (options0\<lparr>opt_timeout := Some 5000\<rparr>)) = 5000 \<and>
   0 < timeout cfg0 \<and>
   0 < timeout (snd (fst (configure True cfg0 (no_options\<lparr>opt_timeout := Some 5000\<rparr>)
     :: (js_error option \<times> config) \<times> unit event list))) \<and>
   0 < timeout (snd (fst (configure True cfg0 (no_options\<lparr>opt_debug := Some True\<rparr>)
     :: (js_error option \<times> config) \<times> unit event list)))"
proof -
  have 0: "opt_timeout options0 = None" "0 < timeout cfg0"
    by (simp_all add: options0_def cfg0_def)
  have 1: "timeout (initial_config options0) = 30000"
    using timeout_default_and_preservation
      [where opts = options0 and cfg = cfg0 and cryptojs = True and ?'p = unit] 0
    by simp
  have 2: "timeout (initial_config (options0\<lparr>opt_timeout := Some 5000\<rparr>)) = 5000"
    using timeout_default_and_preservation
      [where opts = "options0\<lparr>opt_timeout := Some 5000\<rparr>" and cfg = cfg0 and cryptojs = True
         and ?'p = unit]
    by simp
  have 3: "0 < timeout (snd (fst (configure True cfg0 (no_options\<lparr>opt_timeout := Some 5000\<rparr>)
     :: (js_error option \<times> config) \<times> unit event list)))"
    using timeout_default_and_preservation
      [where opts = "no_options\<lparr>opt_timeout := Some 5000\<rparr>" and cfg = cfg0 and cryptojs = True
         and ?'p = unit] 0
    by simp
  have 4: "0 < timeout (snd (fst (configure True cfg0 (no_options\<lparr>opt_debug := Some True\<rparr>)
     :: (js_error option \<times> config) \<times> unit event list)))"
    using timeout_default_and_preservation
      [where opts = "no_options\<lparr>opt_debug := Some True\<rparr>" and cfg = cfg0 and cryptojs = True
         and ?'p = unit] 0
    by (simp add: no_options_def)
  from 0 1 2 3 4 show ?thesis by blast
qed

end
